theory Spec2Isabelle
  imports Complex_Main
begin

section \<open>Predictive-coding networks: the multilayer relaxation engine of \<open>src/models.py\<close>\<close>

text \<open>
  The development embeds the classes \<open>MultilayerPCN\<close>, \<open>HierarchicalPCN\<close> and
  \<open>HybridPCN\<close>. Tensors have at most two dimensions. The type of their entries is a
  parameter of the embedding: over the real numbers the arithmetic is exact, and over
  \<open>f32\<close>, the binary32 format that torch uses by default, it rounds, overflows to an
  infinity and produces NaN. A statement that names no type of entries holds for every
  one. Every exception the Python code can raise is a value of \<open>py_error\<close>.
\<close>

subsection \<open>Errors\<close>

datatype py_error =
  ValueError | TypeError | AttributeError | IndexError | RuntimeError | NotImplementedError

type_synonym 'a result = "py_error + 'a"

definition and_then ::
  "'a result \<Rightarrow> ('a \<Rightarrow> 'b result) \<Rightarrow> 'b result" where
  "and_then r f = (case r of Inl e \<Rightarrow> Inl e | Inr x \<Rightarrow> f x)"

text \<open>\<open>for l in ls: body\<close>, stopping at the first exception.\<close>

fun for_each ::
  "('s \<Rightarrow> nat \<Rightarrow> 's result) \<Rightarrow> nat list \<Rightarrow> 's \<Rightarrow> 's result" where
  "for_each body [] s = Inr s"
| "for_each body (l # ls) s = (case body s l of Inl e \<Rightarrow> Inl e | Inr s' \<Rightarrow> for_each body ls s')"

subsection \<open>Python lists\<close>

definition py_get :: "'a list \<Rightarrow> nat \<Rightarrow> 'a result" where
  "py_get xs i = (if i < length xs then Inr (xs ! i) else Inl IndexError)"

definition py_set :: "'a list \<Rightarrow> nat \<Rightarrow> 'a \<Rightarrow> 'a list result" where
  "py_set xs i v = (if i < length xs then Inr (xs[i := v]) else Inl IndexError)"

text \<open>Index \<open>-1\<close>.\<close>

definition py_get_last :: "'a list \<Rightarrow> 'a result" where
  "py_get_last xs = (if xs = [] then Inl IndexError else Inr (xs ! (length xs - 1)))"

definition py_set_last :: "'a list \<Rightarrow> 'a \<Rightarrow> 'a list result" where
  "py_set_last xs v = (if xs = [] then Inl IndexError else Inr (xs[length xs - 1 := v]))"

subsection \<open>Tensors\<close>

text \<open>
  A tensor of dimension 0, 1 or 2. A matrix carries its number of columns, so that a
  batch of no rows still has a shape.
\<close>

datatype 'a tensor = T0 'a | T1 "'a list" | T2 nat "'a list list"

fun shape :: "'a tensor \<Rightarrow> nat list" where
  "shape (T0 x) = []"
| "shape (T1 xs) = [length xs]"
| "shape (T2 c rs) = [length rs, c]"

fun rect :: "'a tensor \<Rightarrow> bool" where
  "rect (T2 c rs) = list_all (\<lambda>r. length r = c) rs"
| "rect _ = True"

fun tmap :: "('a \<Rightarrow> 'a) \<Rightarrow> 'a tensor \<Rightarrow> 'a tensor" where
  "tmap f (T0 x) = T0 (f x)"
| "tmap f (T1 xs) = T1 (map f xs)"
| "tmap f (T2 c rs) = T2 c (map (map f) rs)"

fun all_zero :: "'a::zero tensor \<Rightarrow> bool" where
  "all_zero (T0 x) = (x = 0)"
| "all_zero (T1 xs) = list_all (\<lambda>x. x = 0) xs"
| "all_zero (T2 c rs) = list_all (list_all (\<lambda>x. x = 0)) rs"

definition neg :: "'a::uminus tensor \<Rightarrow> 'a tensor" where
  "neg = tmap uminus"

definition sign :: "'a::sgn tensor \<Rightarrow> 'a tensor" where
  "sign = tmap sgn"

text \<open>A Python number times a tensor.\<close>

definition smul :: "'a::times \<Rightarrow> 'a tensor \<Rightarrow> 'a tensor" where
  "smul a = tmap ((*) a)"

text \<open>Broadcasting of one dimension: equal sizes, or one of them is 1.\<close>

definition bdim :: "nat \<Rightarrow> nat \<Rightarrow> nat option" where
  "bdim a b = (if a = b then Some a else if a = 1 then Some b else if b = 1 then Some a else None)"

definition expand :: "nat \<Rightarrow> 'a list \<Rightarrow> 'a list" where
  "expand n xs = (case xs of [x] \<Rightarrow> replicate n x | _ \<Rightarrow> xs)"

definition row_bc ::
  "('a \<Rightarrow> 'a \<Rightarrow> 'a) \<Rightarrow> nat \<Rightarrow> 'a list \<Rightarrow> 'a list \<Rightarrow> 'a list" where
  "row_bc f n xs ys = map2 f (expand n xs) (expand n ys)"

text \<open>An elementwise binary operation with broadcasting.\<close>

fun bin ::
  "('a \<Rightarrow> 'a \<Rightarrow> 'a) \<Rightarrow> 'a tensor \<Rightarrow> 'a tensor \<Rightarrow> 'a tensor result" where
  "bin f (T0 x) (T0 y) = Inr (T0 (f x y))"
| "bin f (T0 x) (T1 ys) = Inr (T1 (map (f x) ys))"
| "bin f (T1 xs) (T0 y) = Inr (T1 (map (\<lambda>x. f x y) xs))"
| "bin f (T0 x) (T2 c rs) = Inr (T2 c (map (map (f x)) rs))"
| "bin f (T2 c rs) (T0 y) = Inr (T2 c (map (map (\<lambda>x. f x y)) rs))"
| "bin f (T1 xs) (T1 ys) =
     (case bdim (length xs) (length ys) of
        None \<Rightarrow> Inl RuntimeError
      | Some n \<Rightarrow> Inr (T1 (row_bc f n xs ys)))"
| "bin f (T1 xs) (T2 c rs) =
     (case bdim (length xs) c of
        None \<Rightarrow> Inl RuntimeError
      | Some n \<Rightarrow> Inr (T2 n (map (\<lambda>r. row_bc f n xs r) rs)))"
| "bin f (T2 c rs) (T1 ys) =
     (case bdim c (length ys) of
        None \<Rightarrow> Inl RuntimeError
      | Some n \<Rightarrow> Inr (T2 n (map (\<lambda>r. row_bc f n r ys) rs)))"
| "bin f (T2 c1 rs1) (T2 c2 rs2) =
     (case bdim (length rs1) (length rs2) of
        None \<Rightarrow> Inl RuntimeError
      | Some m \<Rightarrow>
         (case bdim c1 c2 of
            None \<Rightarrow> Inl RuntimeError
          | Some n \<Rightarrow> Inr (T2 n (map2 (row_bc f n) (expand m rs1) (expand m rs2)))))"

definition tadd :: "'a::plus tensor \<Rightarrow> 'a tensor \<Rightarrow> 'a tensor result" where
  "tadd = bin (+)"

definition tsub :: "'a::minus tensor \<Rightarrow> 'a tensor \<Rightarrow> 'a tensor result" where
  "tsub = bin (-)"

definition tmul :: "'a::times tensor \<Rightarrow> 'a tensor \<Rightarrow> 'a tensor result" where
  "tmul = bin (*)"

text \<open>
  Sums are accumulated from the last term to the first, and every product is a value of
  the entry type before it is added; the order matters only where the addition of that
  type is not associative.
\<close>

definition total :: "'a::{zero,plus} list \<Rightarrow> 'a" where
  "total xs = foldr (+) xs 0"

definition dot :: "'a::{zero,plus,times} list \<Rightarrow> 'a list \<Rightarrow> 'a" where
  "dot xs ys = total (map2 (*) xs ys)"

definition cols :: "nat \<Rightarrow> 'a list list \<Rightarrow> 'a list list" where
  "cols c rs = map (\<lambda>j. map (\<lambda>r. r ! j) rs) [0..<c]"

text \<open>\<open>x.t()\<close>: tensors of dimension 0 and 1 are returned as they are.\<close>

fun tensor_t :: "'a tensor \<Rightarrow> 'a tensor" where
  "tensor_t (T2 c rs) = T2 (length rs) (cols c rs)"
| "tensor_t x = x"

text \<open>\<open>torch.matmul\<close> on tensors of dimension 1 and 2.\<close>

fun matmul ::
  "'a::{zero,plus,times} tensor \<Rightarrow> 'a tensor \<Rightarrow> 'a tensor result" where
  "matmul (T1 xs) (T1 ys) =
     (if length xs = length ys then Inr (T0 (dot xs ys)) else Inl RuntimeError)"
| "matmul (T2 c rs) (T1 ys) =
     (if c = length ys then Inr (T1 (map (\<lambda>r. dot r ys) rs)) else Inl RuntimeError)"
| "matmul (T1 xs) (T2 c rs) =
     (if length xs = length rs then Inr (T1 (map (dot xs) (cols c rs))) else Inl RuntimeError)"
| "matmul (T2 c1 rs1) (T2 c2 rs2) =
     (if c1 = length rs2 then Inr (T2 c2 (map (\<lambda>r. map (dot r) (cols c2 rs2)) rs1))
      else Inl RuntimeError)"
| "matmul _ _ = Inl RuntimeError"

text \<open>\<open>torch.sum(x, axis=0)\<close>.\<close>

fun sum0 :: "'a::{zero,plus} tensor \<Rightarrow> 'a tensor" where
  "sum0 (T0 x) = T0 x"
| "sum0 (T1 xs) = T0 (total xs)"
| "sum0 (T2 c rs) = T1 (map total (cols c rs))"

text \<open>\<open>x.fill_diagonal_(0)\<close>: needs at least two dimensions.\<close>

fun fill_diagonal_0 :: "'a::zero tensor \<Rightarrow> 'a tensor result" where
  "fill_diagonal_0 (T2 c rs) = Inr (T2 c (map (\<lambda>i. (rs ! i)[i := 0]) [0..<length rs]))"
| "fill_diagonal_0 _ = Inl RuntimeError"

fun diagonal :: "'a tensor \<Rightarrow> 'a list" where
  "diagonal (T2 c rs) = map (\<lambda>i. rs ! i ! i) [0..<min (length rs) c]"
| "diagonal _ = []"

text \<open>
  Assigning \<open>p.grad = g\<close>: torch refuses a gradient whose size differs from the
  parameter's (\<open>RuntimeError: assigned grad has data of a different size\<close>).
\<close>

definition set_grad ::
  "'a tensor \<Rightarrow> 'a tensor \<Rightarrow> 'a tensor option result" where
  "set_grad p g = (if shape g = shape p then Inr (Some g) else Inl RuntimeError)"

subsection \<open>Nonlinearities and linear layers\<close>

text \<open>
  Modelled from the spec: the module \<open>src/utils.py\<close> with the classes \<open>Tanh\<close> and
  \<open>ReLU\<close> is missing. A nonlinearity is an elementwise function with a paired
  derivative (\<open>deriv\<close>); the hyperbolic tangent has derivative \<open>1 - tanh(x)\<^sup>2\<close>, the
  rectified linear unit has the indicator of \<open>x > 0\<close>. The hyperbolic tangent is given
  over the real numbers.
\<close>

record 'a nonlinearity =
  apply_fn :: "'a \<Rightarrow> 'a"
  deriv_fn :: "'a \<Rightarrow> 'a"

definition Tanh :: "real nonlinearity" where
  "Tanh = \<lparr>apply_fn = tanh, deriv_fn = (\<lambda>x. 1 - (tanh x)\<^sup>2)\<rparr>"

definition ReLU :: "'a::{zero,one,ord} nonlinearity" where
  "ReLU = \<lparr>apply_fn = (\<lambda>x. max 0 x), deriv_fn = (\<lambda>x. if 0 < x then 1 else 0)\<rparr>"

text \<open>
  What \<open>self.nonlins[l]\<close> holds: a nonlinearity object, or the string the constructor
  received and did not recognise.
\<close>

datatype 'a nonlin = Callable "'a nonlinearity" | PyStr string

text \<open>\<open>nonlin(x)\<close>: a string is not callable.\<close>

fun call_nonlin :: "'a nonlin \<Rightarrow> 'a tensor \<Rightarrow> 'a tensor result" where
  "call_nonlin (Callable f) x = Inr (tmap (apply_fn f) x)"
| "call_nonlin (PyStr s) x = Inl TypeError"

text \<open>The attribute \<open>nonlin.deriv\<close>: a string has none.\<close>

fun deriv_attr :: "'a nonlin \<Rightarrow> 'a nonlinearity result" where
  "deriv_attr (Callable f) = Inr f"
| "deriv_attr (PyStr s) = Inl AttributeError"

text \<open>\<open>nn.Linear\<close> with its gradient slots; \<open>bias\<close> is \<open>None\<close> when built with \<open>bias=False\<close>.\<close>

record 'a linear_layer =
  weight :: "'a tensor"
  bias :: "'a tensor option"
  weight_grad :: "'a tensor option"
  bias_grad :: "'a tensor option"

text \<open>The forward pass of \<open>nn.Linear\<close>: \<open>x @ weight.T + bias\<close>.\<close>

definition linear_forward ::
  "'a::{zero,plus,times} linear_layer \<Rightarrow> 'a tensor \<Rightarrow> 'a tensor result" where
  "linear_forward ly x =
     and_then (matmul x (tensor_t (weight ly)))
       (\<lambda>y. case bias ly of None \<Rightarrow> Inr y | Some b \<Rightarrow> tadd y b)"

subsection \<open>The model object\<close>

datatype pcn_class = MultilayerPCN | HierarchicalPCN | HybridPCN

text \<open>
  The attributes of \<open>self\<close>. The buffers \<open>val_nodes\<close>, \<open>preds\<close> and \<open>errs\<close> are Python
  lists whose entries are \<open>[]\<close> (here \<open>None\<close>) until a tensor is stored; \<open>Wr\<close> exists on
  the hybrid class only. The buffers do not exist before \<open>initialize\<close>: a constructed
  object holds empty lists here, so that every access to them raises as well (an
  \<open>IndexError\<close> where Python raises an \<open>AttributeError\<close>).
\<close>

record 'a pcn =
  cls :: pcn_class
  n_layers :: nat
  layers :: "'a linear_layer list"
  mem_dim :: nat
  memory :: "'a tensor"
  memory_grad :: "'a tensor option"
  Dt :: 'a
  nonlins :: "'a nonlin list"
  use_bias :: bool
  lamb :: 'a
  Wr :: "'a tensor option"
  Wr_grad :: "'a tensor option"
  val_nodes :: "'a tensor option list"
  preds :: "'a tensor option list"
  errs :: "'a tensor option list"

text \<open>A buffer entry used as a tensor: the placeholder \<open>[]\<close> is not one.\<close>

definition as_tensor :: "'a tensor option \<Rightarrow> 'a tensor result" where
  "as_tensor b = (case b of None \<Rightarrow> Inl TypeError | Some x \<Rightarrow> Inr x)"

definition get_node ::
  "'a tensor option list \<Rightarrow> nat \<Rightarrow> 'a tensor result" where
  "get_node buf l = and_then (py_get buf l) as_tensor"

text \<open>An attribute that exists on some classes only.\<close>

definition attr :: "'a option \<Rightarrow> 'a result" where
  "attr a = (case a of None \<Rightarrow> Inl AttributeError | Some x \<Rightarrow> Inr x)"

subsection \<open>Construction\<close>

text \<open>
  The argument \<open>nonlin\<close> of the constructors is a name or an object. The layers'
  initial weights and biases are drawn at random by \<open>nn.Linear\<close>, and the memory and
  \<open>Wr\<close> by \<open>torch.randn\<close>; the drawn values are arguments here (\<open>ws l\<close> and
  \<open>bs l\<close> for layer \<open>l\<close>). The constructors resolve the name \<open>Tanh\<close> and are stated
  over the real numbers.
\<close>

datatype 'a nonlin_arg = Name string | Object "'a nonlinearity"

definition select_nonlin :: "real nonlin_arg \<Rightarrow> real nonlin" where
  "select_nonlin a =
     (case a of
        Object f \<Rightarrow> Callable f
      | Name s \<Rightarrow>
          if s = ''Tanh'' then Callable Tanh
          else if s = ''ReLU'' then Callable ReLU
          else PyStr s)"

definition MultilayerPCN_init ::
  "nat list \<Rightarrow> real nonlin_arg \<Rightarrow> real \<Rightarrow> real \<Rightarrow> bool \<Rightarrow> (nat \<Rightarrow> real tensor)
     \<Rightarrow> (nat \<Rightarrow> real tensor) \<Rightarrow> real pcn result" where
  "MultilayerPCN_init nodes nonlin dt lam ub ws bs =
     (if nodes = [] then Inl IndexError
      else Inr \<lparr>cls = MultilayerPCN,
                n_layers = length nodes,
                layers = map (\<lambda>l. \<lparr>weight = ws l,
                                    bias = (if ub then Some (bs l) else None),
                                    weight_grad = None, bias_grad = None\<rparr>)
                             [0..<length nodes - 1],
                mem_dim = nodes ! 0,
                memory = T1 (replicate (nodes ! 0) 0),
                memory_grad = None,
                Dt = dt,
                nonlins = replicate (length nodes - 1) (select_nonlin nonlin),
                use_bias = ub,
                lamb = lam,
                Wr = None, Wr_grad = None,
                val_nodes = [], preds = [], errs = []\<rparr>)"

definition HierarchicalPCN_init ::
  "nat list \<Rightarrow> real nonlin_arg \<Rightarrow> real \<Rightarrow> real \<Rightarrow> bool \<Rightarrow> (nat \<Rightarrow> real tensor)
     \<Rightarrow> (nat \<Rightarrow> real tensor) \<Rightarrow> real tensor \<Rightarrow> real pcn result" where
  "HierarchicalPCN_init nodes nonlin dt lam ub ws bs mem =
     and_then (MultilayerPCN_init nodes nonlin dt lam ub ws bs)
       (\<lambda>m. Inr (m\<lparr>cls := HierarchicalPCN, memory := mem\<rparr>))"

definition HybridPCN_init ::
  "nat list \<Rightarrow> real nonlin_arg \<Rightarrow> real \<Rightarrow> real \<Rightarrow> bool \<Rightarrow> (nat \<Rightarrow> real tensor)
     \<Rightarrow> (nat \<Rightarrow> real tensor) \<Rightarrow> real tensor \<Rightarrow> real tensor \<Rightarrow> real pcn result" where
  "HybridPCN_init nodes nonlin dt lam ub ws bs mem wr =
     and_then (MultilayerPCN_init nodes nonlin dt lam ub ws bs)
       (\<lambda>m. Inr (m\<lparr>cls := HybridPCN, memory := mem, Wr := Some wr\<rparr>))"

subsection \<open>The relaxation engine\<close>

definition initialize :: "'a pcn \<Rightarrow> 'a pcn" where
  "initialize m =
     m\<lparr>val_nodes := replicate (n_layers m) None,
       preds := replicate (n_layers m) None,
       errs := replicate (n_layers m) None\<rparr>"

text \<open>\<open>self.layers[l-1](self.nonlins[l-1](self.val_nodes[l-1]))\<close>.\<close>

definition predict_from ::
  "'a::{zero,plus,minus,uminus,times,sgn} pcn \<Rightarrow> nat \<Rightarrow> 'a tensor result" where
  "predict_from m k =
     and_then (py_get (layers m) k) (\<lambda>ly.
     and_then (py_get (nonlins m) k) (\<lambda>nl.
     and_then (get_node (val_nodes m) k) (\<lambda>v.
     and_then (call_nonlin nl v) (\<lambda>x.
     linear_forward ly x))))"

text \<open>The prediction of layer 0, by class.\<close>

definition top_pred ::
  "'a::{zero,plus,minus,uminus,times,sgn} pcn \<Rightarrow> 'a tensor result" where
  "top_pred m =
     (case cls m of
        MultilayerPCN \<Rightarrow> Inl NotImplementedError
      | HierarchicalPCN \<Rightarrow> Inr (memory m)
      | HybridPCN \<Rightarrow>
          and_then (get_node (val_nodes m) 0) (\<lambda>v.
          and_then (attr (Wr m)) (\<lambda>wr.
          and_then (matmul v (tensor_t wr)) (\<lambda>r.
          tadd (memory m) r))))"

definition update_err_body ::
  "'a::{zero,plus,minus,uminus,times,sgn} pcn \<Rightarrow> nat \<Rightarrow> 'a pcn result" where
  "update_err_body m l =
     and_then (if l = 0 then top_pred m else predict_from m (l - 1)) (\<lambda>p.
     and_then (py_set (preds m) l (Some p)) (\<lambda>ps.
     and_then (get_node (val_nodes m) l) (\<lambda>v.
     and_then (tsub v p) (\<lambda>e.
     and_then (py_set (errs m) l (Some e)) (\<lambda>es.
     Inr (m\<lparr>preds := ps, errs := es\<rparr>))))))"

definition update_err_nodes ::
  "'a::{zero,plus,minus,uminus,times,sgn} pcn \<Rightarrow> 'a pcn result" where
  "update_err_nodes m =
     (case cls m of
        MultilayerPCN \<Rightarrow> Inl NotImplementedError
      | _ \<Rightarrow> for_each update_err_body [0..<n_layers m] m)"

definition set_nodes_body ::
  "'a::{zero,plus,minus,uminus,times,sgn} pcn \<Rightarrow> nat \<Rightarrow> 'a pcn result" where
  "set_nodes_body m l =
     and_then (predict_from m (l - 1)) (\<lambda>v.
     and_then (py_set (val_nodes m) l (Some v)) (\<lambda>vs.
     Inr (m\<lparr>val_nodes := vs\<rparr>)))"

definition set_nodes ::
  "'a::{zero,plus,minus,uminus,times,sgn} pcn \<Rightarrow> 'a tensor \<Rightarrow> 'a pcn result" where
  "set_nodes m batch_inp =
     and_then (py_set (val_nodes m) 0 (Some (memory m))) (\<lambda>vs.
     and_then (for_each set_nodes_body [1..<n_layers m - 1] (m\<lparr>val_nodes := vs\<rparr>)) (\<lambda>m1.
     and_then (py_set_last (val_nodes m1) (Some batch_inp)) (\<lambda>vs'.
     update_err_nodes (m1\<lparr>val_nodes := vs'\<rparr>))))"

definition update_val_body ::
  "'a::{zero,plus,minus,uminus,times,sgn} pcn \<Rightarrow> nat \<Rightarrow> 'a pcn result" where
  "update_val_body m l =
     and_then (py_get (nonlins m) l) (\<lambda>nl.
     and_then (deriv_attr nl) (\<lambda>f.
     and_then (get_node (val_nodes m) l) (\<lambda>v.
     let derivative = tmap (deriv_fn f) v in
     and_then (get_node (errs m) l) (\<lambda>e.
     and_then (tsub (neg e) (smul (if l = 0 then lamb m else 0) (sign v))) (\<lambda>a.
     and_then (get_node (errs m) (l + 1)) (\<lambda>e1.
     and_then (py_get (layers m) l) (\<lambda>ly.
     and_then (matmul e1 (weight ly)) (\<lambda>g.
     and_then (tmul derivative g) (\<lambda>b.
     and_then (tadd a b) (\<lambda>delta.
     and_then (tadd v (smul (Dt m) delta)) (\<lambda>v'.
     and_then (py_set (val_nodes m) l (Some v')) (\<lambda>vs.
     Inr (m\<lparr>val_nodes := vs\<rparr>)))))))))))))"

definition relax_sensory ::
  "'a::{zero,plus,minus,uminus,times,sgn} pcn \<Rightarrow> 'a tensor \<Rightarrow> 'a pcn result" where
  "relax_sensory m update_mask =
     and_then (and_then (py_get_last (val_nodes m)) as_tensor) (\<lambda>v.
     and_then (and_then (py_get_last (errs m)) as_tensor) (\<lambda>e.
     and_then (tmul (neg e) update_mask) (\<lambda>d.
     and_then (tadd v (smul (Dt m) d)) (\<lambda>v'.
     and_then (py_set_last (val_nodes m) (Some v')) (\<lambda>vs.
     Inr (m\<lparr>val_nodes := vs\<rparr>))))))"

definition update_val_nodes ::
  "'a::{zero,plus,minus,uminus,times,sgn} pcn \<Rightarrow> 'a tensor \<Rightarrow> bool \<Rightarrow> 'a pcn result" where
  "update_val_nodes m update_mask recon =
     and_then (for_each update_val_body [0..<n_layers m - 1] m) (\<lambda>m1.
     and_then (if recon then relax_sensory m1 update_mask else Inr m1) (\<lambda>m2.
     update_err_nodes m2))"

subsection \<open>Gradients\<close>

definition grads_body ::
  "'a::{zero,plus,minus,uminus,times,sgn} pcn \<Rightarrow> nat \<Rightarrow> 'a pcn result" where
  "grads_body m l =
     and_then (get_node (errs m) (l + 1)) (\<lambda>e1.
     and_then (py_get (nonlins m) l) (\<lambda>nl.
     and_then (get_node (val_nodes m) l) (\<lambda>v.
     and_then (call_nonlin nl v) (\<lambda>x.
     and_then (matmul (tensor_t e1) x) (\<lambda>g.
     and_then (py_get (layers m) l) (\<lambda>ly.
     and_then (set_grad (weight ly) (neg g)) (\<lambda>wg.
     and_then (if use_bias m
               then and_then (get_node (errs m) (l + 1)) (\<lambda>e1'.
                    and_then (attr (bias ly)) (\<lambda>bv.
                    set_grad bv (neg (sum0 e1'))))
               else Inr (bias_grad ly)) (\<lambda>bg.
     Inr (m\<lparr>layers := (layers m)[l := ly\<lparr>weight_grad := wg, bias_grad := bg\<rparr>]\<rparr>)))))))))"

definition update_grads ::
  "'a::{zero,plus,minus,uminus,times,sgn} pcn \<Rightarrow> 'a pcn result" where
  "update_grads m =
     (case cls m of
        MultilayerPCN \<Rightarrow> Inl NotImplementedError
      | HierarchicalPCN \<Rightarrow>
          and_then (get_node (errs m) 0) (\<lambda>e0.
          and_then (set_grad (memory m) (neg (sum0 e0))) (\<lambda>mg.
          for_each grads_body [0..<n_layers m - 1] (m\<lparr>memory_grad := mg\<rparr>)))
      | HybridPCN \<Rightarrow>
          and_then (get_node (errs m) 0) (\<lambda>e0.
          and_then (set_grad (memory m) (neg (sum0 e0))) (\<lambda>mg.
          and_then (get_node (errs m) 0) (\<lambda>e0'.
          and_then (get_node (val_nodes m) 0) (\<lambda>v0.
          and_then (matmul (tensor_t e0') v0) (\<lambda>p.
          and_then (fill_diagonal_0 p) (\<lambda>d.
          and_then (attr (Wr m)) (\<lambda>wr.
          and_then (set_grad wr (neg d)) (\<lambda>wg.
          for_each grads_body [0..<n_layers m - 1]
            (m\<lparr>memory_grad := mg, Wr_grad := wg\<rparr>))))))))))"

subsection \<open>Episodes\<close>

text \<open>\<open>for itr in range(n_iters)\<close>: no iteration when \<open>n_iters\<close> is negative.\<close>

definition train_pc_generative ::
  "'a::{zero,plus,minus,uminus,times,sgn} pcn \<Rightarrow> 'a tensor \<Rightarrow> int \<Rightarrow> 'a tensor \<Rightarrow> 'a pcn result" where
  "train_pc_generative m batch_inp n_iters update_mask =
     and_then (set_nodes (initialize m) batch_inp) (\<lambda>m1.
     and_then (for_each (\<lambda>s itr. update_val_nodes s update_mask False) [0..<nat n_iters] m1) (\<lambda>m2.
     update_grads m2))"

text \<open>The returned value, with the object as the call leaves it.\<close>

definition test_pc_generative ::
  "'a::{zero,plus,minus,uminus,times,sgn} pcn \<Rightarrow> 'a tensor \<Rightarrow> int \<Rightarrow> 'a tensor \<Rightarrow> bool
     \<Rightarrow> ('a tensor option \<times> 'a pcn) result" where
  "test_pc_generative m corrupt_inp n_iters update_mask sensory =
     and_then (set_nodes (initialize m) corrupt_inp) (\<lambda>m1.
     and_then (for_each (\<lambda>s itr. update_val_nodes s update_mask True) [0..<nat n_iters] m1) (\<lambda>m2.
     if sensory
     then and_then (py_get_last (val_nodes m2)) (\<lambda>r. Inr (r, m2))
     else and_then (py_get_last (preds m2)) (\<lambda>r. Inr (r, m2))))"

subsection \<open>Well-shaped models and states\<close>

text \<open>A one-dimensional tensor of length \<open>n\<close>, or a batch of \<open>B\<close> of them.\<close>

definition has_shape ::
  "nat \<Rightarrow> nat \<Rightarrow> bool \<Rightarrow> 'a tensor \<Rightarrow> bool" where
  "has_shape B n batched x = (rect x \<and> shape x = (if batched then [B, n] else [n]))"

fun is_callable :: "'a nonlin \<Rightarrow> bool" where
  "is_callable (Callable f) = True"
| "is_callable (PyStr s) = False"

definition valid_layer ::
  "bool \<Rightarrow> nat \<Rightarrow> nat \<Rightarrow> 'a linear_layer \<Rightarrow> bool" where
  "valid_layer ub n_in n_out ly =
     (rect (weight ly) \<and> shape (weight ly) = [n_out, n_in] \<and>
      (case bias ly of None \<Rightarrow> \<not> ub | Some b \<Rightarrow> ub \<and> shape b = [n_out]))"

text \<open>
  A model as the constructors of the two concrete classes build it for the node
  dimensions \<open>ns\<close>, with whatever values its parameters have taken since.
\<close>

definition valid_model :: "nat list \<Rightarrow> 'a pcn \<Rightarrow> bool" where
  "valid_model ns m =
     (2 \<le> length ns \<and> n_layers m = length ns \<and>
      length (layers m) = length ns - 1 \<and>
      list_all (\<lambda>l. valid_layer (use_bias m) (ns ! l) (ns ! (l + 1)) (layers m ! l))
        [0..<length ns - 1] \<and>
      shape (memory m) = [ns ! 0] \<and>
      length (nonlins m) = length ns - 1 \<and> list_all is_callable (nonlins m) \<and>
      (case cls m of
         MultilayerPCN \<Rightarrow> False
       | HierarchicalPCN \<Rightarrow> True
       | HybridPCN \<Rightarrow>
           (case Wr m of None \<Rightarrow> False | Some wr \<Rightarrow> rect wr \<and> shape wr = [ns ! 0, ns ! 0])))"

text \<open>
  Layer \<open>l\<close> carries the batch dimension after \<open>k\<close> relaxation steps when it is at most
  \<open>k\<close> layers above the sensory layer.
\<close>

definition batched :: "nat list \<Rightarrow> nat \<Rightarrow> nat \<Rightarrow> bool" where
  "batched ns k l = (length ns \<le> Suc (l + k))"

text \<open>A model with zero weights, zero memory and no bias.\<close>

definition zero_model :: "'a::zero pcn \<Rightarrow> bool" where
  "zero_model m =
     (list_all (\<lambda>ly. all_zero (weight ly) \<and> bias ly = None) (layers m) \<and>
      all_zero (memory m) \<and> \<not> use_bias m)"

text \<open>
  The scalar type computes with zero as the real numbers do: zero absorbs every
  product, and sums, differences, negation and sign of zeros are zero.
\<close>

definition exact_zero :: "'a::{zero,plus,minus,uminus,times,sgn} itself \<Rightarrow> bool" where
  "exact_zero T =
     ((\<forall>x::'a. 0 * x = 0) \<and> (\<forall>x::'a. x * 0 = 0) \<and> (0::'a) + 0 = 0 \<and> (0::'a) - 0 = 0 \<and>
      - (0::'a) = 0 \<and> sgn (0::'a) = 0)"

text \<open>
  The buffer entry of layer \<open>l\<close> after \<open>k\<close> relaxation steps: a tensor of the layer's
  width, batched or not; with the flag \<open>z\<close>, all its entries are zero as well.
\<close>

definition node_ok ::
  "nat list \<Rightarrow> nat \<Rightarrow> nat \<Rightarrow> bool \<Rightarrow> 'a::zero tensor option list \<Rightarrow> nat \<Rightarrow> bool" where
  "node_ok ns B k z buf l =
     (case buf ! l of
        None \<Rightarrow> False
      | Some x \<Rightarrow> has_shape B (ns ! l) (batched ns k l) x \<and> (z \<longrightarrow> all_zero x))"

definition bufs_ok ::
  "nat list \<Rightarrow> nat \<Rightarrow> nat \<Rightarrow> bool \<Rightarrow> 'a::zero pcn \<Rightarrow> bool" where
  "bufs_ok ns B k z m =
     (length (val_nodes m) = length ns \<and> length (preds m) = length ns \<and>
      length (errs m) = length ns \<and>
      list_all (node_ok ns B k z (val_nodes m)) [0..<length ns] \<and>
      list_all (node_ok ns B k z (errs m)) [0..<length ns])"

text \<open>
  Every stored prediction is the one the current value nodes give: the class's
  prediction of layer 0, and for \<open>l > 0\<close> the forward pass from layer \<open>l - 1\<close>.
\<close>

definition preds_ok :: "'a::{zero,plus,minus,uminus,times,sgn} pcn \<Rightarrow> bool" where
  "preds_ok m =
     list_all
       (\<lambda>l. case preds m ! l of
              None \<Rightarrow> False
            | Some p \<Rightarrow> (if l = 0 then top_pred m else predict_from m (l - 1)) = Inr p)
       [0..<n_layers m]"

text \<open>Two objects that differ in their buffers only.\<close>

definition same_params :: "'a pcn \<Rightarrow> 'a pcn \<Rightarrow> bool" where
  "same_params m m' = (\<exists>vs ps es. m' = m\<lparr>val_nodes := vs, preds := ps, errs := es\<rparr>)"

text \<open>The relaxation loop of both episodes.\<close>

definition relax ::
  "'a::{zero,plus,minus,uminus,times,sgn} tensor \<Rightarrow> bool \<Rightarrow> nat \<Rightarrow> 'a pcn \<Rightarrow> 'a pcn result" where
  "relax update_mask recon n m = for_each (\<lambda>s itr. update_val_nodes s update_mask recon) [0..<n] m"

text \<open>Every learnable parameter has a gradient of the parameter's shape.\<close>

definition layer_grads_match :: "bool \<Rightarrow> 'a linear_layer \<Rightarrow> bool" where
  "layer_grads_match ub ly =
     ((case weight_grad ly of None \<Rightarrow> False | Some g \<Rightarrow> shape g = shape (weight ly)) \<and>
      (ub \<longrightarrow> (case bias ly of
                 None \<Rightarrow> False
               | Some b \<Rightarrow> (case bias_grad ly of None \<Rightarrow> False | Some g \<Rightarrow> shape g = shape b))))"

definition grads_match :: "'a pcn \<Rightarrow> bool" where
  "grads_match m =
     ((case memory_grad m of None \<Rightarrow> False | Some g \<Rightarrow> shape g = shape (memory m)) \<and>
      list_all (layer_grads_match (use_bias m)) (layers m) \<and>
      (cls m = HybridPCN \<longrightarrow>
         (case Wr m of
            None \<Rightarrow> False
          | Some w \<Rightarrow> (case Wr_grad m of None \<Rightarrow> False | Some g \<Rightarrow> shape g = shape w))))"

text \<open>
  The update direction in the words of the specification:
  \<open>delta = -errs[l] - penalty * sign(val_nodes[l]) + nonlin'(val_nodes[l]) * (errs[l+1] @ W_l)\<close>.
\<close>

definition spec_delta ::
  "'a::{zero,plus,minus,uminus,times,sgn} \<Rightarrow> 'a nonlinearity \<Rightarrow> 'a tensor \<Rightarrow> 'a tensor \<Rightarrow> 'a tensor \<Rightarrow> 'a tensor
     \<Rightarrow> 'a tensor result" where
  "spec_delta penalty f v e e1 w =
     and_then (tsub (neg e) (smul penalty (sign v))) (\<lambda>a.
     and_then (matmul e1 w) (\<lambda>g.
     and_then (tmul (tmap (deriv_fn f) v) g) (\<lambda>b.
     tadd a b)))"

subsection \<open>Single-precision floats\<close>

text \<open>
  A value of IEEE 754 binary32, the element type of the tensors torch builds by
  default: a finite number, an infinity or NaN. The two zeros are one value here;
  they compare equal, and the operations below do not tell them apart.
\<close>

datatype f32 = Fin real | PInf | NInf | NaN

text \<open>Rounding to the nearest integer, ties to the even one.\<close>

definition round_even :: "real \<Rightarrow> int" where
  "round_even q =
     (let n = \<lfloor>q\<rfloor>; d = q - of_int n
      in if d < 1 / 2 then n else if 1 / 2 < d then n + 1
         else if even n then n else n + 1)"

text \<open>
  The spacing of the binary32 numbers around \<open>x\<close>: 24 significant bits, and no exponent
  below \<open>-126\<close> (the subnormal range).
\<close>

definition ulp :: "real \<Rightarrow> real" where
  "ulp x = 2 powi (max \<lfloor>log 2 \<bar>x\<bar>\<rfloor> (- 126) - 23)"

text \<open>
  Rounding to nearest, ties to even. A magnitude of at least \<open>2\<^sup>1\<^sup>2\<^sup>8 - 2\<^sup>1\<^sup>0\<^sup>3\<close>, half a
  spacing above the largest finite number, overflows to an infinity.
\<close>

definition round32 :: "real \<Rightarrow> f32" where
  "round32 x =
     (if 2 ^ 128 - 2 ^ 103 \<le> \<bar>x\<bar> then (if 0 < x then PInf else NInf)
      else Fin (of_int (round_even (x / ulp x)) * ulp x))"

fun f32_neg :: "f32 \<Rightarrow> f32" where
  "f32_neg (Fin x) = Fin (- x)"
| "f32_neg PInf = NInf"
| "f32_neg NInf = PInf"
| "f32_neg NaN = NaN"

fun f32_add :: "f32 \<Rightarrow> f32 \<Rightarrow> f32" where
  "f32_add (Fin x) (Fin y) = round32 (x + y)"
| "f32_add NaN b = NaN"
| "f32_add a NaN = NaN"
| "f32_add PInf NInf = NaN"
| "f32_add NInf PInf = NaN"
| "f32_add PInf b = PInf"
| "f32_add NInf b = NInf"
| "f32_add a PInf = PInf"
| "f32_add a NInf = NInf"

fun f32_mul :: "f32 \<Rightarrow> f32 \<Rightarrow> f32" where
  "f32_mul (Fin x) (Fin y) = round32 (x * y)"
| "f32_mul NaN b = NaN"
| "f32_mul a NaN = NaN"
| "f32_mul (Fin x) PInf = (if x = 0 then NaN else if 0 < x then PInf else NInf)"
| "f32_mul (Fin x) NInf = (if x = 0 then NaN else if 0 < x then NInf else PInf)"
| "f32_mul PInf (Fin y) = (if y = 0 then NaN else if 0 < y then PInf else NInf)"
| "f32_mul NInf (Fin y) = (if y = 0 then NaN else if 0 < y then NInf else PInf)"
| "f32_mul PInf PInf = PInf"
| "f32_mul PInf NInf = NInf"
| "f32_mul NInf PInf = NInf"
| "f32_mul NInf NInf = PInf"

text \<open>The sign; at NaN, where both comparisons with 0 fail, it is taken to be 0.\<close>

fun f32_sgn :: "f32 \<Rightarrow> f32" where
  "f32_sgn (Fin x) = Fin (sgn x)"
| "f32_sgn PInf = Fin 1"
| "f32_sgn NInf = Fin (- 1)"
| "f32_sgn NaN = Fin 0"

text \<open>Comparisons: every comparison with NaN is false.\<close>

fun f32_less :: "f32 \<Rightarrow> f32 \<Rightarrow> bool" where
  "f32_less (Fin x) (Fin y) = (x < y)"
| "f32_less NaN b = False"
| "f32_less a NaN = False"
| "f32_less a NInf = False"
| "f32_less PInf b = False"
| "f32_less NInf b = True"
| "f32_less a PInf = True"

instantiation f32 :: "{zero,one,plus,minus,uminus,times,sgn,ord}"
begin

definition "(0 :: f32) = Fin 0"

definition "(1 :: f32) = Fin 1"

definition "a + b = f32_add a b"

definition "- a = f32_neg a"

definition "a - b = f32_add a (f32_neg b)"

definition "a * b = f32_mul a b"

definition "sgn a = f32_sgn a"

definition "a < b = f32_less a b"

definition "a \<le> b = (f32_less a b \<or> (a = b \<and> a \<noteq> NaN))"

instance ..

end

text \<open>A value that binary32 holds: rounding leaves it as it is.\<close>

fun is_f32 :: "f32 \<Rightarrow> bool" where
  "is_f32 (Fin x) = (round32 x = Fin x)"
| "is_f32 a = True"

fun is_fin :: "f32 \<Rightarrow> bool" where
  "is_fin (Fin x) = True"
| "is_fin a = False"

fun tensor_all :: "('a \<Rightarrow> bool) \<Rightarrow> 'a tensor \<Rightarrow> bool" where
  "tensor_all P (T0 x) = P x"
| "tensor_all P (T1 xs) = list_all P xs"
| "tensor_all P (T2 c rs) = list_all (list_all P) rs"

text \<open>An entry that has kept its value or has become NaN, and a tensor of such entries.\<close>

definition same_or_nan :: "f32 \<Rightarrow> f32 \<Rightarrow> bool" where
  "same_or_nan x y = (y = x \<or> y = NaN)"

fun frozen_or_nan :: "f32 tensor \<Rightarrow> f32 tensor \<Rightarrow> bool" where
  "frozen_or_nan (T0 x) (T0 y) = same_or_nan x y"
| "frozen_or_nan (T1 xs) (T1 ys) = list_all2 same_or_nan xs ys"
| "frozen_or_nan (T2 c rs) (T2 c' rs') = (c' = c \<and> list_all2 (list_all2 same_or_nan) rs rs')"
| "frozen_or_nan x y = False"

text \<open>
  The error of the sensory layer is finite before each of the first \<open>n\<close> reconstruction
  steps that start from the state \<open>m\<close>.
\<close>

definition sensory_errs_finite :: "f32 tensor \<Rightarrow> nat \<Rightarrow> f32 pcn \<Rightarrow> bool" where
  "sensory_errs_finite update_mask n m =
     list_all
       (\<lambda>k. case relax update_mask True k m of
              Inl err \<Rightarrow> False
            | Inr s \<Rightarrow> (case errs s ! (n_layers s - 1) of
                         None \<Rightarrow> False
                       | Some e \<Rightarrow> tensor_all is_fin e))
       [0..<n]"

subsection \<open>Concrete models and states\<close>

text \<open>
  A hierarchical model with node dimensions \<open>[1, 2]\<close>, a batch of three inputs, and the
  states it goes through.
\<close>

definition ex_model :: "real pcn" where
  "ex_model = \<lparr>cls = HierarchicalPCN, n_layers = 2,
     layers = [\<lparr>weight = T2 1 [ [2], [3] ], bias = None, weight_grad = None, bias_grad = None\<rparr>],
     mem_dim = 1, memory = T1 [1], memory_grad = None, Dt = 1 / 2,
     nonlins = [Callable ReLU], use_bias = False, lamb = 0, Wr = None, Wr_grad = None,
     val_nodes = [], preds = [], errs = []\<rparr>"

definition ex_inp :: "real tensor" where
  "ex_inp = T2 2 [ [1, 2], [3, 4], [5, 6] ]"

definition ex_mask :: "real tensor" where
  "ex_mask = T2 2 [ [0, 0], [0, 0], [0, 0] ]"

definition ex_ones :: "real tensor" where
  "ex_ones = T2 2 [ [1, 1], [1, 1], [1, 1] ]"

text \<open>After \<open>set_nodes\<close>.\<close>

definition ex_nodes_set :: "real pcn" where
  "ex_nodes_set = ex_model\<lparr>
     val_nodes := [Some (T1 [1]), Some (T2 2 [ [1, 2], [3, 4], [5, 6] ])],
     preds := [Some (T1 [1]), Some (T1 [2, 3])],
     errs := [Some (T1 [0]), Some (T2 2 [ [- 1, - 1], [1, 1], [3, 3] ])]\<rparr>"

text \<open>After one relaxation step.\<close>

definition ex_relaxed :: "real pcn" where
  "ex_relaxed = ex_model\<lparr>
     val_nodes := [Some (T2 1 [ [- (3 / 2)], [7 / 2], [17 / 2] ]),
                   Some (T2 2 [ [1, 2], [3, 4], [5, 6] ])],
     preds := [Some (T1 [1]), Some (T2 2 [ [0, 0], [7, 21 / 2], [17, 51 / 2] ])],
     errs := [Some (T2 1 [ [- (5 / 2)], [5 / 2], [15 / 2] ]),
              Some (T2 2 [ [1, 2], [- 4, - (13 / 2)], [- 12, - (39 / 2)] ])]\<rparr>"

text \<open>The same model with zero weights and zero memory, and a zero batch.\<close>

definition ex_zero :: "real pcn" where
  "ex_zero = ex_model\<lparr>
     layers := [\<lparr>weight = T2 1 [ [0], [0] ], bias = None, weight_grad = None, bias_grad = None\<rparr>],
     memory := T1 [0]\<rparr>"

text \<open>
  A hierarchical model with node dimensions \<open>[2, 1]\<close> and a bias, after \<open>set_nodes\<close> and
  one relaxation step on a batch of two inputs, and after the gradient step.
\<close>

definition ex_biased :: "real pcn" where
  "ex_biased = \<lparr>cls = HierarchicalPCN, n_layers = 2,
     layers = [\<lparr>weight = T2 2 [ [1, 2] ], bias = Some (T1 [1]),
                 weight_grad = None, bias_grad = None\<rparr>],
     mem_dim = 2, memory = T1 [1, 0], memory_grad = None, Dt = 1 / 2,
     nonlins = [Callable ReLU], use_bias = True, lamb = 1, Wr = None, Wr_grad = None,
     val_nodes = [Some (T2 2 [ [0, 0], [1 / 2, 0] ]), Some (T2 1 [ [1], [2] ])],
     preds = [Some (T1 [1, 0]), Some (T2 1 [ [1], [3 / 2] ])],
     errs = [Some (T2 2 [ [- 1, 0], [- (1 / 2), 0] ]), Some (T2 1 [ [0], [1 / 2] ])]\<rparr>"

definition ex_biased_graded :: "real pcn" where
  "ex_biased_graded = ex_biased\<lparr>
     layers := [\<lparr>weight = T2 2 [ [1, 2] ], bias = Some (T1 [1]),
                 weight_grad = Some (T2 2 [ [- (1 / 4), 0] ]),
                 bias_grad = Some (T1 [- (1 / 2)])\<rparr>],
     memory_grad := Some (T1 [3 / 2, 0])\<rparr>"

text \<open>A hybrid model with node dimensions \<open>[2, 1]\<close> and a bias, after one relaxation step
  on a batch of two inputs, and after the gradient step.\<close>

definition ex_hybrid :: "real pcn" where
  "ex_hybrid = \<lparr>cls = HybridPCN, n_layers = 2,
     layers = [\<lparr>weight = T2 2 [ [1, 2] ], bias = Some (T1 [1]),
                 weight_grad = None, bias_grad = None\<rparr>],
     mem_dim = 2, memory = T1 [1, 0], memory_grad = None, Dt = 1 / 2,
     nonlins = [Callable ReLU], use_bias = True, lamb = 1,
     Wr = Some (T2 2 [ [0, 1], [1, 0] ]), Wr_grad = None,
     val_nodes = [Some (T2 2 [ [0, 1 / 2], [1 / 2, 1 / 2] ]), Some (T2 1 [ [1], [2] ])],
     preds = [Some (T2 2 [ [3 / 2, 0], [3 / 2, 1 / 2] ]), Some (T2 1 [ [2], [5 / 2] ])],
     errs = [Some (T2 2 [ [- (3 / 2), 1 / 2], [- 1, 0] ]), Some (T2 1 [ [- 1], [- (1 / 2)] ])]\<rparr>"


definition ex_hybrid_graded :: "real pcn" where
  "ex_hybrid_graded = ex_hybrid\<lparr>
     layers := [\<lparr>weight = T2 2 [ [1, 2] ], bias = Some (T1 [1]),
                 weight_grad = Some (T2 2 [ [1 / 4, 3 / 4] ]), bias_grad = Some (T1 [3 / 2])\<rparr>],
     memory_grad := Some (T1 [5 / 2, - (1 / 2)]),
     Wr_grad := Some (T2 2 [ [0, 5 / 4], [0, 0] ])\<rparr>"

definition ex_zero_inp :: "real tensor" where
  "ex_zero_inp = T2 2 [ [0, 0], [0, 0], [0, 0] ]"

text \<open>
  A hierarchical model in binary32 with node dimensions \<open>[1, 1]\<close> whose prediction of the
  sensory layer overflows, a batch of two inputs, and the state after one reconstruction
  step.
\<close>

definition ex32_model :: "f32 pcn" where
  "ex32_model = \<lparr>cls = HierarchicalPCN, n_layers = 2,
     layers = [\<lparr>weight = T2 1 [ [Fin (2 ^ 64)] ], bias = None, weight_grad = None,
                 bias_grad = None\<rparr>],
     mem_dim = 1, memory = T1 [Fin (2 ^ 64)], memory_grad = None, Dt = Fin 1,
     nonlins = [Callable ReLU], use_bias = False, lamb = Fin 0, Wr = None, Wr_grad = None,
     val_nodes = [], preds = [], errs = []\<rparr>"

definition ex32_inp :: "f32 tensor" where
  "ex32_inp = T2 1 [ [Fin 1], [Fin 0] ]"

definition ex32_mask :: "f32 tensor" where
  "ex32_mask = T2 1 [ [Fin 0], [Fin 0] ]"

definition ex32_relaxed :: "f32 pcn" where
  "ex32_relaxed = ex32_model\<lparr>
     val_nodes := [Some (T2 1 [ [NInf], [NInf] ]), Some (T2 1 [ [NaN], [NaN] ])],
     preds := [Some (T1 [Fin (2 ^ 64)]), Some (T2 1 [ [Fin 0], [Fin 0] ])],
     errs := [Some (T2 1 [ [NInf], [NInf] ]), Some (T2 1 [ [NaN], [NaN] ])]\<rparr>"

text \<open>The same model with unit weight and unit memory, and its state after \<open>set_nodes\<close>.\<close>

definition ex32_tame :: "f32 pcn" where
  "ex32_tame = ex32_model\<lparr>
     layers := [\<lparr>weight = T2 1 [ [Fin 1] ], bias = None, weight_grad = None, bias_grad = None\<rparr>],
     memory := T1 [Fin 1]\<rparr>"

definition ex32_tame_set :: "f32 pcn" where
  "ex32_tame_set = ex32_tame\<lparr>
     val_nodes := [Some (T1 [Fin 1]), Some (T2 1 [ [Fin 1], [Fin 0] ])],
     preds := [Some (T1 [Fin 1]), Some (T1 [Fin 1])],
     errs := [Some (T1 [Fin 0]), Some (T2 1 [ [Fin 0], [Fin (- 1)] ])]\<rparr>"

section \<open>Auxiliary facts\<close>

subsection \<open>Results and loops\<close>

lemma and_then_Inr [simp]: "and_then (Inr x) f = f x"
  by (simp add: and_then_def)

lemma and_then_Inl [simp]: "and_then (Inl e) f = Inl e"
  by (simp add: and_then_def)

lemma and_then_eq_Inr:
  "and_then r f = Inr y \<longleftrightarrow> (\<exists>x. r = Inr x \<and> f x = Inr y)"
  by (cases r) simp_all

lemma for_each_append:
  "for_each body (xs @ ys) s = and_then (for_each body xs s) (for_each body ys)"
  by (induction xs arbitrary: s) (simp_all split: sum.splits)

text \<open>The loop rule: an invariant indexed by the loop counter, with termination.\<close>

lemma for_each_upt_prefix:
  assumes init: "P a s"
    and step: "\<And>j s. a \<le> j \<Longrightarrow> j < b \<Longrightarrow> P j s \<Longrightarrow> \<exists>s'. body s j = Inr s' \<and> P (Suc j) s'"
  shows "a \<le> c \<Longrightarrow> c \<le> b \<Longrightarrow> \<exists>s'. for_each body [a..<c] s = Inr s' \<and> P c s'"
proof (induction c)
  case 0
  then show ?case using init by simp
next
  case (Suc c)
  show ?case
  proof (cases "a = Suc c")
    case True
    then show ?thesis using init by simp
  next
    case False
    with Suc.prems have le: "a \<le> c" and lt: "c < b" by simp_all
    from Suc.IH le lt obtain s1 where s1: "for_each body [a..<c] s = Inr s1" "P c s1"
      by auto
    from step [OF le lt s1(2)] obtain s2 where s2: "body s1 c = Inr s2" "P (Suc c) s2"
      by auto
    have "[a..<Suc c] = [a..<c] @ [c]" using le by simp
    then show ?thesis using s1 s2 by (simp add: for_each_append)
  qed
qed

lemma for_each_upt_rule:
  assumes "P a s"
    and "\<And>j s. a \<le> j \<Longrightarrow> j < b \<Longrightarrow> P j s \<Longrightarrow> \<exists>s'. body s j = Inr s' \<and> P (Suc j) s'"
    and "a \<le> b"
  shows "\<exists>s'. for_each body [a..<b] s = Inr s' \<and> P b s'"
  using for_each_upt_prefix [of P a s b body b] assms by blast

subsection \<open>Shapes of the tensor operations\<close>

lemma shape_tmap [simp]: "shape (tmap f x) = shape x"
  by (cases x) simp_all

lemma rect_tmap [simp]: "rect (tmap f x) = rect x"
  by (cases x) (simp_all add: list_all_iff)

lemma has_shape_tmap [simp]: "has_shape B n b (tmap f x) = has_shape B n b x"
  by (simp add: has_shape_def)

lemma has_shape_neg [simp]: "has_shape B n b (neg x) = has_shape B n b x"
  by (simp add: neg_def)

lemma has_shape_sign [simp]: "has_shape B n b (sign x) = has_shape B n b x"
  by (simp add: sign_def)

lemma has_shape_smul [simp]: "has_shape B n b (smul a x) = has_shape B n b x"
  by (simp add: smul_def)

lemma shape_neg [simp]: "shape (neg x) = shape x"
  by (simp add: neg_def)

lemma bdim_same [simp]: "bdim n n = Some n"
  by (simp add: bdim_def)

lemma expand_same: "length xs = n \<Longrightarrow> expand n xs = xs"
  by (cases xs rule: list.exhaust [case_product list.exhaust])
     (auto simp: expand_def split: list.splits)

lemma row_bc_same:
  "length xs = n \<Longrightarrow> length ys = n \<Longrightarrow> row_bc f n xs ys = map2 f xs ys"
  by (simp add: row_bc_def expand_same)

lemma length_row_bc_same [simp]:
  "length xs = n \<Longrightarrow> length ys = n \<Longrightarrow> length (row_bc f n xs ys) = n"
  by (simp add: row_bc_same)

lemma has_shape_T1 [simp]: "has_shape B n b (T1 xs) \<longleftrightarrow> \<not> b \<and> length xs = n"
  by (auto simp: has_shape_def)

lemma has_shape_T0 [simp]: "\<not> has_shape B n b (T0 x)"
  by (simp add: has_shape_def)

lemma has_shape_T2 [simp]:
  "has_shape B n b (T2 c rs) \<longleftrightarrow> b \<and> length rs = B \<and> c = n \<and> (\<forall>r\<in>set rs. length r = n)"
  by (auto simp: has_shape_def list_all_iff)

lemma bin_has_shape:
  assumes "has_shape B n b1 x" and "has_shape B n b2 y"
  shows "\<exists>z. bin f x y = Inr z \<and> has_shape B n (b1 \<or> b2) z"
proof (cases x; cases y)
  fix c rs c' rs'
  assume x: "x = T2 c rs" and y: "y = T2 c' rs'"
  with assms have len: "length rs = B" "length rs' = B" "c = n" "c' = n"
    and rows: "\<forall>r\<in>set rs. length r = n" "\<forall>r\<in>set rs'. length r = n"
    by simp_all
  have "\<forall>r\<in>set (map2 (row_bc f n) rs rs'). length r = n"
  proof
    fix r assume "r \<in> set (map2 (row_bc f n) rs rs')"
    then obtain a b where "(a, b) \<in> set (zip rs rs')" "r = row_bc f n a b" by auto
    then have "a \<in> set rs" "b \<in> set rs'" "r = row_bc f n a b"
      by (auto dest: set_zip_leftD set_zip_rightD)
    with rows show "length r = n" by simp
  qed
  then show ?thesis using x y len assms by (simp add: expand_same)
qed (use assms in \<open>auto\<close>)

lemma tadd_has_shape:
  "has_shape B n b1 x \<Longrightarrow> has_shape B n b2 y \<Longrightarrow> \<exists>z. tadd x y = Inr z \<and> has_shape B n (b1 \<or> b2) z"
  unfolding tadd_def by (rule bin_has_shape)

lemma tsub_has_shape:
  "has_shape B n b1 x \<Longrightarrow> has_shape B n b2 y \<Longrightarrow> \<exists>z. tsub x y = Inr z \<and> has_shape B n (b1 \<or> b2) z"
  unfolding tsub_def by (rule bin_has_shape)

lemma tmul_has_shape:
  "has_shape B n b1 x \<Longrightarrow> has_shape B n b2 y \<Longrightarrow> \<exists>z. tmul x y = Inr z \<and> has_shape B n (b1 \<or> b2) z"
  unfolding tmul_def by (rule bin_has_shape)

lemma length_cols [simp]: "length (cols c rs) = c"
  by (simp add: cols_def)

lemma length_in_cols: "r \<in> set (cols c rs) \<Longrightarrow> length r = length rs"
  by (auto simp: cols_def)

lemma matmul_has_shape:
  assumes "has_shape B n b x" and "rect w" and "shape w = [n, p]"
  shows "\<exists>z. matmul x w = Inr z \<and> has_shape B p b z"
  using assms by (cases x; cases w) (auto simp: length_in_cols)

lemma rect_tensor_t [simp]: "rect (tensor_t w)"
  by (cases w) (auto simp: list_all_iff length_in_cols)

lemma shape_tensor_t_T2: "shape w = [a, b] \<Longrightarrow> shape (tensor_t w) = [b, a]"
  by (cases w) auto

lemma linear_forward_has_shape:
  assumes "has_shape B n b x" and "valid_layer ub n p ly"
  shows "\<exists>z. linear_forward ly x = Inr z \<and> has_shape B p b z"
proof -
  from assms(2) have w: "rect (tensor_t (weight ly))" "shape (tensor_t (weight ly)) = [n, p]"
    by (simp_all add: valid_layer_def shape_tensor_t_T2)
  from matmul_has_shape [OF assms(1) w] obtain y
    where y: "matmul x (tensor_t (weight ly)) = Inr y" "has_shape B p b y" by blast
  show ?thesis
  proof (cases "bias ly")
    case None
    then show ?thesis using y by (simp add: linear_forward_def)
  next
    case (Some bv)
    with assms(2) have "has_shape B p False bv"
      by (cases bv) (auto simp: valid_layer_def has_shape_def)
    from tadd_has_shape [OF y(2) this] show ?thesis
      using y Some by (simp add: linear_forward_def)
  qed
qed

subsection \<open>Zero tensors\<close>

lemma exact_zeroD:
  assumes "exact_zero TYPE('a::{zero,plus,minus,uminus,times,sgn})"
  shows "\<And>x::'a. 0 * x = 0" "\<And>x::'a. x * 0 = 0" "(0::'a) + 0 = 0" "(0::'a) - 0 = 0"
    "- (0::'a) = 0" "sgn (0::'a) = 0"
  using assms by (simp_all add: exact_zero_def)

lemma exact_zero_real: "exact_zero TYPE(real)"
  by (simp add: exact_zero_def)

lemma all_zero_tmap: "all_zero x \<Longrightarrow> f 0 = 0 \<Longrightarrow> all_zero (tmap f x)"
  by (cases x) (auto simp: list_all_iff)

lemma all_zero_neg:
  "exact_zero TYPE('a::{zero,plus,minus,uminus,times,sgn}) \<Longrightarrow> all_zero (x :: 'a tensor)
     \<Longrightarrow> all_zero (neg x)"
  by (simp add: neg_def all_zero_tmap exact_zeroD)

lemma all_zero_sign:
  "exact_zero TYPE('a::{zero,plus,minus,uminus,times,sgn}) \<Longrightarrow> all_zero (x :: 'a tensor)
     \<Longrightarrow> all_zero (sign x)"
  by (simp add: sign_def all_zero_tmap exact_zeroD)

lemma all_zero_smul:
  "exact_zero TYPE('a::{zero,plus,minus,uminus,times,sgn}) \<Longrightarrow> all_zero (x :: 'a tensor)
     \<Longrightarrow> all_zero (smul a x)"
  by (simp add: smul_def all_zero_tmap exact_zeroD)

lemma set_expand: "set (expand n xs) \<subseteq> set xs"
  by (auto simp: expand_def split: list.splits)

lemma row_bc_zero:
  assumes "(\<forall>x\<in>set xs. x = 0) \<and> (\<forall>b. f 0 b = 0) \<or> (\<forall>y\<in>set ys. y = 0) \<and> (\<forall>a. f a 0 = 0)
      \<or> (\<forall>x\<in>set xs. x = 0) \<and> (\<forall>y\<in>set ys. y = 0) \<and> f 0 0 = 0"
  shows "\<forall>v\<in>set (row_bc f n xs ys). v = 0"
proof
  fix v assume "v \<in> set (row_bc f n xs ys)"
  then obtain a b where ab: "(a, b) \<in> set (zip (expand n xs) (expand n ys))" "v = f a b"
    by (auto simp: row_bc_def)
  then have "a \<in> set (expand n xs)" "b \<in> set (expand n ys)"
    by (auto dest: set_zip_leftD set_zip_rightD)
  then have "a \<in> set xs" "b \<in> set ys"
    using set_expand [of n xs] set_expand [of n ys] by blast+
  with assms ab(2) show "v = 0" by auto
qed

lemma bin_zero:
  assumes "bin f x y = Inr r"
    and "all_zero x \<and> (\<forall>b. f 0 b = 0) \<or> all_zero y \<and> (\<forall>a. f a 0 = 0)
      \<or> all_zero x \<and> all_zero y \<and> f 0 0 = 0"
  shows "all_zero r"
proof (cases x; cases y)
  fix xs ys assume x: "x = T1 xs" and y: "y = T1 ys"
  with assms(1) obtain n where "r = T1 (row_bc f n xs ys)" by (auto split: option.splits)
  moreover have "\<forall>v\<in>set (row_bc f n xs ys). v = 0"
    by (rule row_bc_zero) (use assms(2) x y in \<open>auto simp: list_all_iff\<close>)
  ultimately show ?thesis by (simp add: list_all_iff)
next
  fix xs c rs assume x: "x = T1 xs" and y: "y = T2 c rs"
  with assms(1) obtain n where r: "r = T2 n (map (\<lambda>q. row_bc f n xs q) rs)"
    by (auto split: option.splits)
  have "\<forall>v\<in>set (row_bc f n xs q). v = 0" if "q \<in> set rs" for q
    by (rule row_bc_zero) (use assms(2) x y that in \<open>auto simp: list_all_iff\<close>)
  then show ?thesis using r by (simp add: list_all_iff)
next
  fix c rs ys assume x: "x = T2 c rs" and y: "y = T1 ys"
  with assms(1) obtain n where r: "r = T2 n (map (\<lambda>q. row_bc f n q ys) rs)"
    by (auto split: option.splits)
  have "\<forall>v\<in>set (row_bc f n q ys). v = 0" if "q \<in> set rs" for q
    by (rule row_bc_zero) (use assms(2) x y that in \<open>auto simp: list_all_iff\<close>)
  then show ?thesis using r by (simp add: list_all_iff)
next
  fix c rs c' rs' assume x: "x = T2 c rs" and y: "y = T2 c' rs'"
  with assms(1) obtain n k where r: "r = T2 n (map2 (row_bc f n) (expand k rs) (expand k rs'))"
    by (auto split: option.splits)
  have "\<forall>v\<in>set q. v = 0" if "q \<in> set (map2 (row_bc f n) (expand k rs) (expand k rs'))" for q
  proof -
    from that obtain a b where ab: "(a, b) \<in> set (zip (expand k rs) (expand k rs'))"
      "q = row_bc f n a b" by auto
    then have "a \<in> set (expand k rs)" "b \<in> set (expand k rs')"
      by (auto dest: set_zip_leftD set_zip_rightD)
    then have "a \<in> set rs" "b \<in> set rs'"
      using set_expand [of k rs] set_expand [of k rs'] by blast+
    then have "(\<forall>x\<in>set a. x = 0) \<and> (\<forall>b. f 0 b = 0) \<or> (\<forall>y\<in>set b. y = 0) \<and> (\<forall>a. f a 0 = 0)
        \<or> (\<forall>x\<in>set a. x = 0) \<and> (\<forall>y\<in>set b. y = 0) \<and> f 0 0 = 0"
      using assms(2) x y by (auto simp: list_all_iff)
    from row_bc_zero [OF this] ab(2) show ?thesis by simp
  qed
  then show ?thesis using r by (simp add: list_all_iff)
qed (use assms in \<open>force simp: list_all_iff\<close>)+

lemma tadd_zero_zero:
  assumes "exact_zero TYPE('a::{zero,plus,minus,uminus,times,sgn})"
    and "tadd x y = Inr (r :: 'a tensor)" and "all_zero x" and "all_zero y"
  shows "all_zero r"
  using assms(2) unfolding tadd_def
  by (rule bin_zero [where f = "(+)"]) (use assms in \<open>simp add: exact_zeroD\<close>)

lemma tsub_zero_zero:
  assumes "exact_zero TYPE('a::{zero,plus,minus,uminus,times,sgn})"
    and "tsub x y = Inr (r :: 'a tensor)" and "all_zero x" and "all_zero y"
  shows "all_zero r"
  using assms(2) unfolding tsub_def
  by (rule bin_zero [where f = "(-)"]) (use assms in \<open>simp add: exact_zeroD\<close>)

lemma tmul_zero_left:
  assumes "exact_zero TYPE('a::{zero,plus,minus,uminus,times,sgn})"
    and "tmul x y = Inr (r :: 'a tensor)" and "all_zero x"
  shows "all_zero r"
  using assms(2) unfolding tmul_def
  by (rule bin_zero [where f = "(*)"]) (use assms in \<open>simp add: exact_zeroD\<close>)

lemma tmul_zero_right:
  assumes "exact_zero TYPE('a::{zero,plus,minus,uminus,times,sgn})"
    and "tmul x y = Inr (r :: 'a tensor)" and "all_zero y"
  shows "all_zero r"
  using assms(2) unfolding tmul_def
  by (rule bin_zero [where f = "(*)"]) (use assms in \<open>simp add: exact_zeroD\<close>)

lemma total_zero:
  assumes "exact_zero TYPE('a::{zero,plus,minus,uminus,times,sgn})"
  shows "\<forall>x\<in>set xs. x = (0::'a) \<Longrightarrow> total xs = 0"
  unfolding total_def by (induction xs) (simp_all add: exact_zeroD [OF assms])

lemma dot_zero_left:
  assumes "exact_zero TYPE('a::{zero,plus,minus,uminus,times,sgn})"
    and "\<forall>x\<in>set xs. x = (0::'a)"
  shows "dot xs ys = 0"
proof -
  have "\<forall>v\<in>set (map2 (*) xs ys). v = 0"
  proof
    fix v assume "v \<in> set (map2 (*) xs ys)"
    then obtain a b where ab: "(a, b) \<in> set (zip xs ys)" "v = a * b" by auto
    from ab(1) have "a \<in> set xs" by (rule set_zip_leftD)
    with assms(2) have "a = 0" by blast
    with ab(2) show "v = 0" by (simp add: exact_zeroD(1) [OF assms(1)])
  qed
  then show ?thesis unfolding dot_def by (rule total_zero [OF assms(1)])
qed

lemma dot_zero_right:
  assumes "exact_zero TYPE('a::{zero,plus,minus,uminus,times,sgn})"
    and "\<forall>y\<in>set ys. y = (0::'a)"
  shows "dot xs ys = 0"
proof -
  have "\<forall>v\<in>set (map2 (*) xs ys). v = 0"
  proof
    fix v assume "v \<in> set (map2 (*) xs ys)"
    then obtain a b where ab: "(a, b) \<in> set (zip xs ys)" "v = a * b" by auto
    from ab(1) have "b \<in> set ys" by (rule set_zip_rightD)
    with assms(2) have "b = 0" by blast
    with ab(2) show "v = 0" by (simp add: exact_zeroD(2) [OF assms(1)])
  qed
  then show ?thesis unfolding dot_def by (rule total_zero [OF assms(1)])
qed

lemma cols_zero:
  assumes "\<forall>r\<in>set rs. length r = c \<and> (\<forall>x\<in>set r. x = 0)" and "q \<in> set (cols c rs)"
  shows "\<forall>x\<in>set q. x = 0"
  using assms by (auto simp: cols_def)

lemma matmul_zero_left:
  assumes ez: "exact_zero TYPE('a::{zero,plus,minus,uminus,times,sgn})"
    and "matmul x w = Inr (r :: 'a tensor)" and "all_zero x"
  shows "all_zero r"
  using assms(2,3)
  by (cases x; cases w) (auto simp: list_all_iff dot_zero_left [OF ez] split: if_splits)

lemma matmul_zero_right:
  assumes ez: "exact_zero TYPE('a::{zero,plus,minus,uminus,times,sgn})"
    and "matmul x w = Inr (r :: 'a tensor)" and "all_zero w" and "rect w"
  shows "all_zero r"
proof -
  have "dot q u = 0" if "u \<in> set (cols c rs)" "w = T2 c rs" for q u c rs
    using cols_zero [of rs c u] that assms(3,4) by (auto simp: list_all_iff dot_zero_right [OF ez])
  then show ?thesis using assms(2,3,4)
    by (cases x; cases w) (auto simp: list_all_iff dot_zero_right [OF ez] split: if_splits)
qed

lemma all_zero_tensor_t: "all_zero w \<Longrightarrow> rect w \<Longrightarrow> all_zero (tensor_t w)"
  by (cases w) (auto simp: list_all_iff dest: cols_zero [rotated])

lemma linear_forward_zero:
  assumes ez: "exact_zero TYPE('a::{zero,plus,minus,uminus,times,sgn})"
    and "linear_forward ly x = Inr (r :: 'a tensor)" and "all_zero (weight ly)"
    and "rect (weight ly)" and "bias ly = None"
  shows "all_zero r"
  using assms(2-) matmul_zero_right [OF ez, of x "tensor_t (weight ly)" r]
  by (auto simp: linear_forward_def and_then_eq_Inr all_zero_tensor_t)

subsection \<open>Frames\<close>

lemma same_params_refl [simp]: "same_params m m"
proof -
  have "m = m\<lparr>val_nodes := val_nodes m, preds := preds m, errs := errs m\<rparr>" by simp
  then show ?thesis unfolding same_params_def by blast
qed

lemma same_params_trans: "same_params a b \<Longrightarrow> same_params b c \<Longrightarrow> same_params a c"
  unfolding same_params_def by fastforce

lemma same_params_val [simp]: "same_params m (m\<lparr>val_nodes := vs\<rparr>)"
proof -
  have "m\<lparr>val_nodes := vs\<rparr> = m\<lparr>val_nodes := vs, preds := preds m, errs := errs m\<rparr>" by simp
  then show ?thesis unfolding same_params_def by blast
qed

lemma same_params_preds_errs [simp]: "same_params m (m\<lparr>preds := ps, errs := es\<rparr>)"
proof -
  have "m\<lparr>preds := ps, errs := es\<rparr> = m\<lparr>val_nodes := val_nodes m, preds := ps, errs := es\<rparr>"
    by simp
  then show ?thesis unfolding same_params_def by blast
qed

lemma same_params_initialize [simp]: "same_params m (initialize m)"
  unfolding same_params_def initialize_def by blast

lemma same_params_fields:
  assumes "same_params m m'"
  shows "cls m' = cls m" "n_layers m' = n_layers m" "layers m' = layers m"
    "memory m' = memory m" "Dt m' = Dt m" "nonlins m' = nonlins m"
    "use_bias m' = use_bias m" "lamb m' = lamb m" "Wr m' = Wr m"
    "memory_grad m' = memory_grad m" "Wr_grad m' = Wr_grad m" "mem_dim m' = mem_dim m"
  using assms unfolding same_params_def by auto

lemma same_params_valid: "same_params m m' \<Longrightarrow> valid_model ns m \<Longrightarrow> valid_model ns m'"
  by (simp add: valid_model_def same_params_fields split: pcn_class.splits)

lemma same_params_zero: "same_params m m' \<Longrightarrow> zero_model m \<Longrightarrow> zero_model m'"
  by (simp add: zero_model_def same_params_fields)

lemma same_params_predictions:
  assumes "same_params m s" and "val_nodes s = val_nodes m"
  shows "top_pred s = top_pred m" "predict_from s k = predict_from m k"
proof -
  from assms(1) obtain vs ps es where "s = m\<lparr>val_nodes := vs, preds := ps, errs := es\<rparr>"
    unfolding same_params_def by blast
  with assms(2) have s: "s = m\<lparr>val_nodes := val_nodes m, preds := ps, errs := es\<rparr>" by simp
  show "top_pred s = top_pred m"
    by (subst s) (simp add: top_pred_def cong: pcn_class.case_cong)
  show "predict_from s k = predict_from m k" by (subst s) (simp add: predict_from_def)
qed

subsection \<open>Reading a valid model\<close>

lemma valid_model_layer:
  "valid_model ns m \<Longrightarrow> Suc l < length ns \<Longrightarrow>
     valid_layer (use_bias m) (ns ! l) (ns ! Suc l) (layers m ! l)"
  by (auto simp: valid_model_def list_all_iff)

lemma valid_model_nonlin:
  "valid_model ns m \<Longrightarrow> Suc l < length ns \<Longrightarrow> \<exists>f. nonlins m ! l = Callable f"
proof -
  assume vm: "valid_model ns m" and l: "Suc l < length ns"
  then have "nonlins m ! l \<in> set (nonlins m)" by (simp add: valid_model_def)
  with vm have "is_callable (nonlins m ! l)" by (simp add: valid_model_def list_all_iff)
  then show ?thesis by (cases "nonlins m ! l") simp_all
qed

lemma valid_model_memory: "valid_model ns m \<Longrightarrow> has_shape B (ns ! 0) False (memory m)"
  by (cases "memory m") (auto simp: valid_model_def)

lemma zero_model_layer:
  "zero_model m \<Longrightarrow> l < length (layers m) \<Longrightarrow>
     all_zero (weight (layers m ! l)) \<and> bias (layers m ! l) = None"
  by (auto simp: zero_model_def list_all_iff)

lemma get_node_Some: "l < length buf \<Longrightarrow> buf ! l = Some v \<Longrightarrow> get_node buf l = Inr v"
  by (simp add: get_node_def py_get_def as_tensor_def)

lemma node_okD:
  "node_ok ns B k z buf l \<Longrightarrow>
     \<exists>x. buf ! l = Some x \<and> has_shape B (ns ! l) (batched ns k l) x \<and> (z \<longrightarrow> all_zero x)"
  by (auto simp: node_ok_def split: option.splits)

lemma node_okI:
  "buf ! l = Some x \<Longrightarrow> has_shape B (ns ! l) (batched ns k l) x \<Longrightarrow> (z \<longrightarrow> all_zero x) \<Longrightarrow>
     node_ok ns B k z buf l"
  by (simp add: node_ok_def)

lemma batched_mono: "batched ns k l \<Longrightarrow> batched ns k (Suc l)"
  by (simp add: batched_def)

lemma batched_Suc: "batched ns (Suc k) l = batched ns k (Suc l)"
  by (simp add: batched_def)

subsection \<open>Predictions\<close>

lemma predict_from_ok:
  assumes vm: "valid_model ns (m :: 'a::{zero,plus,minus,uminus,times,sgn} pcn)" and zm: "z \<longrightarrow> zero_model m"
    and i: "Suc i < length ns" and len: "length (val_nodes m) = length ns"
    and v: "val_nodes m ! i = Some v" "has_shape B (ns ! i) b v"
    and zl: "z \<longrightarrow> exact_zero TYPE('a)"
  shows "\<exists>p. predict_from m i = Inr p \<and> has_shape B (ns ! Suc i) b p \<and> (z \<longrightarrow> all_zero p)"
proof -
  from vm i have li: "i < length (layers m)" "i < length (nonlins m)"
    by (simp_all add: valid_model_def)
  from valid_model_layer [OF vm i] have vl: "valid_layer (use_bias m) (ns ! i) (ns ! Suc i) (layers m ! i)" .
  from valid_model_nonlin [OF vm i] obtain f where f: "nonlins m ! i = Callable f" by blast
  have gv: "get_node (val_nodes m) i = Inr v" using i len v(1) by (simp add: get_node_Some)
  have "has_shape B (ns ! i) b (tmap (apply_fn f) v)" using v(2) by simp
  from linear_forward_has_shape [OF this vl] obtain p
    where p: "linear_forward (layers m ! i) (tmap (apply_fn f) v) = Inr p"
      "has_shape B (ns ! Suc i) b p" by blast
  have eq: "predict_from m i = Inr p"
    using li f gv p(1) by (simp add: predict_from_def py_get_def)
  have "all_zero p" if z
  proof -
    from that zm have "zero_model m" by simp
    moreover from that zl have ez: "exact_zero TYPE('a)" by simp
    ultimately show ?thesis using zero_model_layer [of m i] li(1) vl p(1)
      by (auto intro: linear_forward_zero [OF ez] simp: valid_layer_def)
  qed
  with eq p(2) show ?thesis by blast
qed

lemma top_pred_ok:
  assumes vm: "valid_model ns (m :: 'a::{zero,plus,minus,uminus,times,sgn} pcn)" and zm: "z \<longrightarrow> zero_model m"
    and len: "length (val_nodes m) = length ns"
    and v: "node_ok ns B k z (val_nodes m) 0"
    and zl: "z \<longrightarrow> exact_zero TYPE('a)"
  shows "\<exists>p b. top_pred m = Inr p \<and> has_shape B (ns ! 0) b p \<and> (b \<longrightarrow> batched ns k 0)
           \<and> (z \<longrightarrow> all_zero p)"
proof (cases "cls m")
  case MultilayerPCN
  with vm show ?thesis by (simp add: valid_model_def)
next
  case HierarchicalPCN
  have "z \<longrightarrow> all_zero (memory m)" using zm by (simp add: zero_model_def)
  with HierarchicalPCN valid_model_memory [OF vm, of B] show ?thesis
    by (auto simp: top_pred_def)
next
  case HybridPCN
  with vm obtain wr where wr: "Wr m = Some wr" "rect wr" "shape wr = [ns ! 0, ns ! 0]"
    by (auto simp: valid_model_def split: option.splits)
  from node_okD [OF v] obtain x where x: "val_nodes m ! 0 = Some x"
    "has_shape B (ns ! 0) (batched ns k 0) x" "z \<longrightarrow> all_zero x" by blast
  from vm len have "0 < length (val_nodes m)" by (auto simp: valid_model_def)
  then have gx: "get_node (val_nodes m) 0 = Inr x" using x(1) by (simp add: get_node_Some)
  have "rect (tensor_t wr)" "shape (tensor_t wr) = [ns ! 0, ns ! 0]"
    using wr by (simp_all add: shape_tensor_t_T2)
  from matmul_has_shape [OF x(2) this] obtain r where r: "matmul x (tensor_t wr) = Inr r"
    "has_shape B (ns ! 0) (batched ns k 0) r" by blast
  from tadd_has_shape [OF valid_model_memory [OF vm] r(2)] obtain p
    where p: "tadd (memory m) r = Inr p" "has_shape B (ns ! 0) (False \<or> batched ns k 0) p"
    by blast
  have eq: "top_pred m = Inr p"
    using HybridPCN wr(1) gx r(1) p(1) by (simp add: top_pred_def attr_def)
  have "all_zero p" if z
  proof -
    from that zl have ez: "exact_zero TYPE('a)" by simp
    from that x(3) r(1) have "all_zero r" by (auto intro: matmul_zero_left [OF ez])
    moreover from that zm have "all_zero (memory m)" by (simp add: zero_model_def)
    ultimately show ?thesis using p(1) by (auto intro: tadd_zero_zero [OF ez])
  qed
  with eq p(2) show ?thesis by auto
qed

subsection \<open>Recomputing predictions and errors\<close>

lemma update_err_body_ok:
  assumes vm: "valid_model ns (s :: 'a::{zero,plus,minus,uminus,times,sgn} pcn)" and zm: "z \<longrightarrow> zero_model s"
    and j: "j < length ns"
    and len: "length (val_nodes s) = length ns" "length (preds s) = length ns"
      "length (errs s) = length ns"
    and vals: "\<forall>l<length ns. node_ok ns B k z (val_nodes s) l"
    and zl: "z \<longrightarrow> exact_zero TYPE('a)"
  shows "\<exists>p e. update_err_body s j = Inr (s\<lparr>preds := (preds s)[j := Some p],
                                              errs := (errs s)[j := Some e]\<rparr>)
           \<and> has_shape B (ns ! j) (batched ns k j) e \<and> (z \<longrightarrow> all_zero e)
           \<and> (if j = 0 then top_pred s else predict_from s (j - 1)) = Inr p"
proof -
  from vals j obtain v where v: "val_nodes s ! j = Some v"
    "has_shape B (ns ! j) (batched ns k j) v" "z \<longrightarrow> all_zero v"
    using node_okD by blast
  have gv: "get_node (val_nodes s) j = Inr v" using j len v(1) by (simp add: get_node_Some)
  have "\<exists>p b. (if j = 0 then top_pred s else predict_from s (j - 1)) = Inr p
          \<and> has_shape B (ns ! j) b p \<and> (b \<longrightarrow> batched ns k j) \<and> (z \<longrightarrow> all_zero p)"
  proof (cases "j = 0")
    case True
    from vals j True have "node_ok ns B k z (val_nodes s) 0" by simp
    from top_pred_ok [OF vm zm len(1) this zl] True show ?thesis by simp
  next
    case False
    then obtain i where i: "j = Suc i" by (cases j) auto
    with j have il: "i < length ns" by simp
    with vals obtain u where u: "val_nodes s ! i = Some u"
      "has_shape B (ns ! i) (batched ns k i) u"
      using node_okD by blast
    from predict_from_ok [OF vm zm _ len(1) u zl] i j obtain p
      where "predict_from s i = Inr p" "has_shape B (ns ! Suc i) (batched ns k i) p"
        "z \<longrightarrow> all_zero p" by auto
    with i batched_mono [of ns k i] show ?thesis by auto
  qed
  then obtain p b where p: "(if j = 0 then top_pred s else predict_from s (j - 1)) = Inr p"
    "has_shape B (ns ! j) b p" "b \<longrightarrow> batched ns k j" "z \<longrightarrow> all_zero p" by blast
  from tsub_has_shape [OF v(2) p(2)] obtain e where e: "tsub v p = Inr e"
    "has_shape B (ns ! j) (batched ns k j \<or> b) e" by blast
  from e(2) p(3) have es: "has_shape B (ns ! j) (batched ns k j) e" by (cases b) auto
  have ez: "z \<longrightarrow> all_zero e" using v(3) p(4) e(1) zl by (auto intro: tsub_zero_zero)
  have "update_err_body s j = Inr (s\<lparr>preds := (preds s)[j := Some p],
                                     errs := (errs s)[j := Some e]\<rparr>)"
    using p(1) gv e(1) j len by (simp add: update_err_body_def py_set_def)
  with es ez p(1) show ?thesis by blast
qed

lemma update_err_nodes_ok:
  assumes vm: "valid_model ns (m :: 'a::{zero,plus,minus,uminus,times,sgn} pcn)" and zm: "z \<longrightarrow> zero_model m"
    and len: "length (val_nodes m) = length ns" "length (preds m) = length ns"
      "length (errs m) = length ns"
    and vals: "\<forall>l<length ns. node_ok ns B k z (val_nodes m) l"
    and zl: "z \<longrightarrow> exact_zero TYPE('a)"
  shows "\<exists>m'. update_err_nodes m = Inr m' \<and> same_params m m' \<and> val_nodes m' = val_nodes m
           \<and> bufs_ok ns B k z m' \<and> preds_ok m'"
proof -
  define Q where "Q l x \<longleftrightarrow> (case x of None \<Rightarrow> False
      | Some p \<Rightarrow> (if l = 0 then top_pred m else predict_from m (l - 1)) = Inr p)"
    for l :: nat and x
  define P where "P j s \<longleftrightarrow> same_params m s \<and> val_nodes s = val_nodes m
      \<and> length (preds s) = length ns \<and> length (errs s) = length ns
      \<and> (\<forall>l<j. node_ok ns B k z (errs s) l) \<and> (\<forall>l<j. Q l (preds s ! l))" for j s
  have init: "P 0 m" using len by (simp add: P_def)
  have step: "\<exists>s'. update_err_body s j = Inr s' \<and> P (Suc j) s'"
    if "0 \<le> j" "j < length ns" "P j s" for j s
  proof -
    from that(3) have sp: "same_params m s" and vs: "val_nodes s = val_nodes m"
      and ls: "length (preds s) = length ns" "length (errs s) = length ns"
      and es: "\<forall>l<j. node_ok ns B k z (errs s) l"
      and qs: "\<forall>l<j. Q l (preds s ! l)"
      by (simp_all add: P_def)
    have vm': "valid_model ns s" using sp vm by (rule same_params_valid)
    have zm': "z \<longrightarrow> zero_model s" using sp zm by (auto intro: same_params_zero)
    from update_err_body_ok [OF vm' zm' that(2) _ ls _ zl, of B k] vs len(1) vals
    obtain p e where pe: "update_err_body s j = Inr (s\<lparr>preds := (preds s)[j := Some p],
                                              errs := (errs s)[j := Some e]\<rparr>)"
      "has_shape B (ns ! j) (batched ns k j) e" "z \<longrightarrow> all_zero e"
      "(if j = 0 then top_pred s else predict_from s (j - 1)) = Inr p" by auto
    have Qj: "Q j (Some p)"
      using pe(4) same_params_predictions [OF sp vs] by (cases "j = 0") (simp_all add: Q_def)
    let ?s' = "s\<lparr>preds := (preds s)[j := Some p], errs := (errs s)[j := Some e]\<rparr>"
    have "same_params m ?s'" using sp by (rule same_params_trans) simp
    moreover have "node_ok ns B k z (errs ?s') l" if "l < Suc j" for l
    proof (cases "l = j")
      case True
      then show ?thesis using pe(2,3) ls \<open>j < length ns\<close> by (simp add: node_ok_def)
    next
      case False
      with that es have "node_ok ns B k z (errs s) l" by simp
      with False show ?thesis by (simp add: node_ok_def)
    qed
    moreover have "Q l (preds ?s' ! l)" if "l < Suc j" for l
    proof (cases "l = j")
      case True
      then show ?thesis using Qj ls \<open>j < length ns\<close> by simp
    next
      case False
      with that qs show ?thesis by simp
    qed
    ultimately have "P (Suc j) ?s'" using vs ls by (simp add: P_def)
    with pe(1) show ?thesis by blast
  qed
  from for_each_upt_rule [of P 0 m "length ns" update_err_body, OF init step]
  obtain m' where m': "for_each update_err_body [0..<length ns] m = Inr m'" "P (length ns) m'"
    by auto
  from vm have "cls m \<noteq> MultilayerPCN" "n_layers m = length ns"
    by (auto simp: valid_model_def)
  then have "update_err_nodes m = Inr m'"
    using m'(1) by (simp add: update_err_nodes_def split: pcn_class.splits)
  moreover have "bufs_ok ns B k z m'"
    using m'(2) vals len by (simp add: P_def bufs_ok_def list_all_iff)
  moreover have "preds_ok m'"
  proof -
    from m'(2) have sp: "same_params m m'" and vs: "val_nodes m' = val_nodes m"
      and qs: "\<forall>l<length ns. Q l (preds m' ! l)" by (simp_all add: P_def)
    from sp \<open>n_layers m = length ns\<close> have "n_layers m' = length ns"
      by (simp add: same_params_fields)
    moreover have "case preds m' ! l of None \<Rightarrow> False
        | Some p \<Rightarrow> (if l = 0 then top_pred m' else predict_from m' (l - 1)) = Inr p"
      if "l < length ns" for l
    proof -
      from qs that have "Q l (preds m' ! l)" by simp
      then show ?thesis using same_params_predictions [OF sp vs]
        by (cases "preds m' ! l"; cases "l = 0") (simp_all add: Q_def)
    qed
    ultimately show ?thesis unfolding preds_ok_def list_all_iff by simp
  qed
  ultimately show ?thesis using m'(2) by (auto simp: P_def)
qed

subsection \<open>Setting the nodes\<close>

lemma bufs_ok_initialize:
  "n_layers m = length ns \<Longrightarrow>
     length (val_nodes (initialize m)) = length ns \<and> length (preds (initialize m)) = length ns
     \<and> length (errs (initialize m)) = length ns"
  by (simp add: initialize_def)

lemma set_nodes_ok:
  assumes vm: "valid_model ns (m :: 'a::{zero,plus,minus,uminus,times,sgn} pcn)" and zm: "z \<longrightarrow> zero_model m"
    and len: "length (val_nodes m) = length ns" "length (preds m) = length ns"
      "length (errs m) = length ns"
    and inp: "has_shape B (ns ! (length ns - 1)) True inp" "z \<longrightarrow> all_zero inp"
    and zl: "z \<longrightarrow> exact_zero TYPE('a)"
  shows "\<exists>m'. set_nodes m inp = Inr m' \<and> same_params m m' \<and> bufs_ok ns B 0 z m' \<and> preds_ok m'
           \<and> val_nodes m' ! 0 = Some (memory m)
           \<and> val_nodes m' ! (length ns - 1) = Some inp"
proof -
  from vm have L: "2 \<le> length ns" and nl: "n_layers m = length ns"
    by (simp_all add: valid_model_def)
  from L have L0: "0 < length ns" "0 < length ns - 1" "length ns - 1 < length ns"
    and L1: "1 \<le> length ns - 1" by linarith+
  let ?m0 = "m\<lparr>val_nodes := (val_nodes m)[0 := Some (memory m)]\<rparr>"
  define P where "P j s \<longleftrightarrow> same_params m s \<and> length (val_nodes s) = length ns
      \<and> preds s = preds m \<and> errs s = errs m \<and> val_nodes s ! 0 = Some (memory m)
      \<and> (\<forall>l<j. \<exists>v. val_nodes s ! l = Some v \<and> has_shape B (ns ! l) False v
             \<and> (z \<longrightarrow> all_zero v))" for j s
  have mz: "z \<longrightarrow> all_zero (memory m)" using zm by (simp add: zero_model_def)
  have init: "P 1 ?m0"
    using len L0 valid_model_memory [OF vm, of B] mz by (simp add: P_def)
  have step: "\<exists>s'. set_nodes_body s j = Inr s' \<and> P (Suc j) s'"
    if "1 \<le> j" "j < length ns - 1" "P j s" for j s
  proof -
    from that(3) have sp: "same_params m s" and ls: "length (val_nodes s) = length ns"
      and fr: "preds s = preds m" "errs s = errs m" "val_nodes s ! 0 = Some (memory m)"
      and vs: "\<forall>l<j. \<exists>v. val_nodes s ! l = Some v \<and> has_shape B (ns ! l) False v
             \<and> (z \<longrightarrow> all_zero v)"
      by (simp_all add: P_def)
    have vm': "valid_model ns s" using sp vm by (rule same_params_valid)
    have zm': "z \<longrightarrow> zero_model s" using sp zm by (auto intro: same_params_zero)
    from that(1) obtain i where i: "j = Suc i" by (cases j) auto
    with vs obtain u where u: "val_nodes s ! i = Some u" "has_shape B (ns ! i) False u"
      by auto
    from i that(2) have "Suc i < length ns" by simp
    from predict_from_ok [OF vm' zm' this ls u zl] i obtain p
      where p: "predict_from s i = Inr p" "has_shape B (ns ! j) False p" "z \<longrightarrow> all_zero p"
      by auto
    let ?s' = "s\<lparr>val_nodes := (val_nodes s)[j := Some p]\<rparr>"
    have eq: "set_nodes_body s j = Inr ?s'"
      using p(1) i that(2) ls by (simp add: set_nodes_body_def py_set_def)
    have "same_params m ?s'" using sp by (rule same_params_trans) simp
    moreover have "\<exists>v. val_nodes ?s' ! l = Some v \<and> has_shape B (ns ! l) False v
             \<and> (z \<longrightarrow> all_zero v)" if "l < Suc j" for l
    proof (cases "l = j")
      case True
      then show ?thesis using p(2,3) ls \<open>j < length ns - 1\<close> by simp
    next
      case False
      with that vs show ?thesis by simp
    qed
    ultimately have "P (Suc j) ?s'" using ls fr i by (simp add: P_def)
    with eq show ?thesis by blast
  qed
  from for_each_upt_rule [of P 1 ?m0 "length ns - 1" set_nodes_body, OF init step L1]
  obtain m1 where m1: "for_each set_nodes_body [1..<length ns - 1] ?m0 = Inr m1"
    "P (length ns - 1) m1" by auto
  from m1(2) have sp1: "same_params m m1" and l1: "length (val_nodes m1) = length ns"
    and fr1: "preds m1 = preds m" "errs m1 = errs m" "val_nodes m1 ! 0 = Some (memory m)"
    and vs1: "\<forall>l<length ns - 1. \<exists>v. val_nodes m1 ! l = Some v \<and> has_shape B (ns ! l) False v
             \<and> (z \<longrightarrow> all_zero v)"
    by (simp_all add: P_def)
  let ?m2 = "m1\<lparr>val_nodes := (val_nodes m1)[length ns - 1 := Some inp]\<rparr>"
  have sp2: "same_params m ?m2" using sp1 by (rule same_params_trans) simp
  have vm2: "valid_model ns ?m2" using sp2 vm by (rule same_params_valid)
  have zm2: "z \<longrightarrow> zero_model ?m2" using sp2 zm by (auto intro: same_params_zero)
  have vals2: "\<forall>l<length ns. node_ok ns B 0 z (val_nodes ?m2) l"
  proof (intro allI impI)
    fix l assume l: "l < length ns"
    show "node_ok ns B 0 z (val_nodes ?m2) l"
    proof (cases "l = length ns - 1")
      case True
      then have "batched ns 0 l" using l by (simp add: batched_def)
      with True inp l1 l show ?thesis by (simp add: node_ok_def)
    next
      case False
      with l have l': "l < length ns - 1" by simp
      then have "\<not> batched ns 0 l" by (simp add: batched_def)
      with vs1 l' False show ?thesis by (auto simp: node_ok_def)
    qed
  qed
  from update_err_nodes_ok [OF vm2 zm2 _ _ _ vals2 zl] l1 fr1 len
  obtain m' where m': "update_err_nodes ?m2 = Inr m'" "same_params ?m2 m'"
    "val_nodes m' = val_nodes ?m2" "bufs_ok ns B 0 z m'" "preds_ok m'" by auto
  have "set_nodes m inp = Inr m'"
    using len L0 nl m1(1) l1 m'(1)
    by (auto simp: set_nodes_def py_set_def py_set_last_def)
  moreover have "same_params m m'" using sp2 m'(2) by (rule same_params_trans)
  moreover have "val_nodes m' ! 0 = Some (memory m)" using m'(3) fr1 L0 l1 by simp
  moreover have "val_nodes m' ! (length ns - 1) = Some inp" using m'(3) l1 L0 by simp
  ultimately show ?thesis using m'(4,5) by blast
qed

subsection \<open>One relaxation step\<close>

lemma update_val_body_ok:
  assumes vm: "valid_model ns (s :: 'a::{zero,plus,minus,uminus,times,sgn} pcn)" and zm: "z \<longrightarrow> zero_model s"
    and j: "Suc j < length ns"
    and len: "length (val_nodes s) = length ns" "length (errs s) = length ns"
    and v: "val_nodes s ! j = Some v" "has_shape B (ns ! j) (batched ns k j) v"
      "z \<longrightarrow> all_zero v"
    and errs: "\<forall>l<length ns. node_ok ns B k z (errs s) l"
    and zl: "z \<longrightarrow> exact_zero TYPE('a)"
  shows "\<exists>v'. update_val_body s j = Inr (s\<lparr>val_nodes := (val_nodes s)[j := Some v']\<rparr>)
           \<and> has_shape B (ns ! j) (batched ns (Suc k) j) v' \<and> (z \<longrightarrow> all_zero v')"
proof -
  let ?b = "batched ns k j" and ?b1 = "batched ns k (Suc j)"
  have bb: "?b \<longrightarrow> ?b1" by (simp add: batched_mono)
  from vm j have ln: "j < length (nonlins s)" "j < length (layers s)"
    by (simp_all add: valid_model_def)
  from valid_model_nonlin [OF vm j] obtain f where f: "nonlins s ! j = Callable f" by blast
  from valid_model_layer [OF vm j]
  have w: "rect (weight (layers s ! j))" "shape (weight (layers s ! j)) = [ns ! Suc j, ns ! j]"
    by (simp_all add: valid_layer_def)
  have gv: "get_node (val_nodes s) j = Inr v" using j len v(1) by (simp add: get_node_Some)
  from errs j obtain e where e: "errs s ! j = Some e" "has_shape B (ns ! j) ?b e"
    "z \<longrightarrow> all_zero e" using node_okD [of ns B k z "errs s" j] by auto
  from errs j obtain e1 where e1: "errs s ! Suc j = Some e1" "has_shape B (ns ! Suc j) ?b1 e1"
    "z \<longrightarrow> all_zero e1" using node_okD [of ns B k z "errs s" "Suc j"] by auto
  have ge: "get_node (errs s) j = Inr e" "get_node (errs s) (Suc j) = Inr e1"
    using j len e(1) e1(1) by (simp_all add: get_node_Some)
  let ?pen = "if j = 0 then lamb s else 0"
  have "has_shape B (ns ! j) ?b (neg e)" "has_shape B (ns ! j) ?b (smul ?pen (sign v))"
    using e(2) v(2) by simp_all
  from tsub_has_shape [OF this] obtain a where a: "tsub (neg e) (smul ?pen (sign v)) = Inr a"
    "has_shape B (ns ! j) ?b a" by auto
  from matmul_has_shape [OF e1(2) w] obtain g where g: "matmul e1 (weight (layers s ! j)) = Inr g"
    "has_shape B (ns ! j) ?b1 g" by blast
  have "has_shape B (ns ! j) ?b (tmap (deriv_fn f) v)" using v(2) by simp
  from tmul_has_shape [OF this g(2)] bb obtain b where b: "tmul (tmap (deriv_fn f) v) g = Inr b"
    "has_shape B (ns ! j) ?b1 b" by auto
  from tadd_has_shape [OF a(2) b(2)] bb obtain delta where d: "tadd a b = Inr delta"
    "has_shape B (ns ! j) ?b1 delta" by auto
  have "has_shape B (ns ! j) ?b1 (smul (Dt s) delta)" using d(2) by simp
  from tadd_has_shape [OF v(2) this] bb obtain v' where v': "tadd v (smul (Dt s) delta) = Inr v'"
    "has_shape B (ns ! j) ?b1 v'" by auto
  have eq: "update_val_body s j = Inr (s\<lparr>val_nodes := (val_nodes s)[j := Some v']\<rparr>)"
    using ln f gv ge a(1) g(1) b(1) d(1) v'(1) j len
    by (simp add: update_val_body_def py_get_def py_set_def Let_def)
  have "all_zero v'" if z
  proof -
    from that e(3) v(3) e1(3) have ze: "all_zero e" "all_zero v" "all_zero e1" by simp_all
    from that zl have ez: "exact_zero TYPE('a)" by simp
    note zr = tsub_zero_zero [OF ez] all_zero_neg [OF ez] all_zero_smul [OF ez]
      all_zero_sign [OF ez] tadd_zero_zero [OF ez] tmul_zero_right [OF ez]
    have "all_zero a" using a(1) ze by (auto intro: zr)
    moreover have "all_zero g" using ez g(1) ze(3) by (rule matmul_zero_left)
    then have "all_zero b" using b(1) by (auto intro: zr)
    ultimately have "all_zero delta" using d(1) by (auto intro: zr)
    then show ?thesis using v'(1) ze(2) by (auto intro: zr)
  qed
  with eq v'(2) show ?thesis by (auto simp: batched_Suc)
qed

lemma relax_sensory_ok:
  assumes L: "0 < length ns"
    and len: "length (val_nodes (s :: 'a::{zero,plus,minus,uminus,times,sgn} pcn)) = length ns"
      "length (errs s) = length ns"
    and v: "val_nodes s ! (length ns - 1) = Some v" "has_shape B n True v" "z \<longrightarrow> all_zero v"
    and e: "errs s ! (length ns - 1) = Some e" "has_shape B n True e" "z \<longrightarrow> all_zero e"
    and mask: "has_shape B n True update_mask"
    and zl: "z \<longrightarrow> exact_zero TYPE('a)"
  shows "\<exists>v'. relax_sensory s update_mask
             = Inr (s\<lparr>val_nodes := (val_nodes s)[length ns - 1 := Some v']\<rparr>)
           \<and> has_shape B n True v' \<and> (z \<longrightarrow> all_zero v')"
proof -
  have "has_shape B n True (neg e)" using e(2) by simp
  from tmul_has_shape [OF this mask] obtain d where d: "tmul (neg e) update_mask = Inr d"
    "has_shape B n True d" by auto
  have ds: "has_shape B n True (smul (Dt s) d)" using d(2) by simp
  from tadd_has_shape [OF v(2) this] obtain v' where v': "tadd v (smul (Dt s) d) = Inr v'"
    "has_shape B n True v'" by auto
  have eq: "relax_sensory s update_mask
      = Inr (s\<lparr>val_nodes := (val_nodes s)[length ns - 1 := Some v']\<rparr>)"
    using L len v(1) e(1) d(1) v'(1)
    by (auto simp: relax_sensory_def py_get_last_def py_set_last_def as_tensor_def)
  have "all_zero v'" if z
  proof -
    from that zl have ez: "exact_zero TYPE('a)" by simp
    from that e(3) d(1) have "all_zero d"
      by (auto intro: tmul_zero_left [OF ez] all_zero_neg [OF ez])
    with that v(3) v'(1) show ?thesis
      by (auto intro: tadd_zero_zero [OF ez] all_zero_smul [OF ez])
  qed
  then show ?thesis using eq v'(2) by blast
qed

lemma bufs_okD:
  assumes "bufs_ok ns B k z m"
  shows "length (val_nodes m) = length ns" "length (preds m) = length ns"
    "length (errs m) = length ns"
    "\<forall>l<length ns. node_ok ns B k z (val_nodes m) l"
    "\<forall>l<length ns. node_ok ns B k z (errs m) l"
  using assms by (simp_all add: bufs_ok_def list_all_iff)

lemma batched_last: "0 < length ns \<Longrightarrow> batched ns k (length ns - 1)"
  by (simp add: batched_def)

lemma node_ok_last_Suc:
  "0 < length ns \<Longrightarrow> node_ok ns B (Suc k) z buf (length ns - 1) = node_ok ns B k z buf (length ns - 1)"
  using batched_last [of ns k] batched_last [of ns "Suc k"]
  by (auto simp: node_ok_def split: option.splits)

lemma update_val_nodes_ok:
  assumes vm: "valid_model ns (m :: 'a::{zero,plus,minus,uminus,times,sgn} pcn)" and zm: "z \<longrightarrow> zero_model m"
    and bufs: "bufs_ok ns B k z m"
    and mask: "recon \<longrightarrow> has_shape B (ns ! (length ns - 1)) True update_mask"
    and zl: "z \<longrightarrow> exact_zero TYPE('a)"
  shows "\<exists>m'. update_val_nodes m update_mask recon = Inr m' \<and> same_params m m'
           \<and> bufs_ok ns B (Suc k) z m' \<and> preds_ok m'"
proof -
  from vm have L: "2 \<le> length ns" and nl: "n_layers m = length ns"
    by (simp_all add: valid_model_def)
  from L have L0: "0 < length ns" "length ns - 1 < length ns" and L1: "0 \<le> length ns - 1"
    by linarith+
  note b = bufs_okD [OF bufs]
  define P where "P j s \<longleftrightarrow> same_params m s \<and> preds s = preds m \<and> errs s = errs m
      \<and> length (val_nodes s) = length ns
      \<and> (\<forall>l<length ns. node_ok ns B (if l < j then Suc k else k) z (val_nodes s) l)" for j s
  have init: "P 0 m" using b by (simp add: P_def)
  have step: "\<exists>s'. update_val_body s j = Inr s' \<and> P (Suc j) s'"
    if "0 \<le> j" "j < length ns - 1" "P j s" for j s
  proof -
    from that(3) have sp: "same_params m s" and fr: "preds s = preds m" "errs s = errs m"
      and ls: "length (val_nodes s) = length ns"
      and vs: "\<forall>l<length ns. node_ok ns B (if l < j then Suc k else k) z (val_nodes s) l"
      by (simp_all add: P_def)
    have vm': "valid_model ns s" using sp vm by (rule same_params_valid)
    have zm': "z \<longrightarrow> zero_model s" using sp zm by (auto intro: same_params_zero)
    from that(2) have j: "Suc j < length ns" "j < length ns" by simp_all
    from vs j(2) have "node_ok ns B k z (val_nodes s) j" by auto
    from node_okD [OF this] obtain v where v: "val_nodes s ! j = Some v"
      "has_shape B (ns ! j) (batched ns k j) v" "z \<longrightarrow> all_zero v" by blast
    have le: "length (errs s) = length ns" using fr b by simp
    have es: "\<forall>l<length ns. node_ok ns B k z (errs s) l" using fr b by simp
    from update_val_body_ok [OF vm' zm' j(1) ls le v es zl] obtain v'
      where v': "update_val_body s j = Inr (s\<lparr>val_nodes := (val_nodes s)[j := Some v']\<rparr>)"
        "has_shape B (ns ! j) (batched ns (Suc k) j) v'" "z \<longrightarrow> all_zero v'" by blast
    let ?s' = "s\<lparr>val_nodes := (val_nodes s)[j := Some v']\<rparr>"
    have "same_params m ?s'" using sp by (rule same_params_trans) simp
    moreover have "node_ok ns B (if l < Suc j then Suc k else k) z (val_nodes ?s') l"
      if "l < length ns" for l
    proof (cases "l = j")
      case True
      then show ?thesis using v'(2,3) ls j by (simp add: node_ok_def)
    next
      case False
      from vs that have "node_ok ns B (if l < j then Suc k else k) z (val_nodes s) l" by simp
      moreover from False have "(l < Suc j) = (l < j)" by auto
      ultimately show ?thesis using False by (simp add: node_ok_def)
    qed
    ultimately have "P (Suc j) ?s'" using fr ls by (simp add: P_def)
    with v'(1) show ?thesis by blast
  qed
  from for_each_upt_rule [of P 0 m "length ns - 1" update_val_body, OF init step L1]
  obtain m1 where m1: "for_each update_val_body [0..<length ns - 1] m = Inr m1"
    "P (length ns - 1) m1" by auto
  from m1(2) have sp1: "same_params m m1" and fr1: "preds m1 = preds m" "errs m1 = errs m"
    and l1: "length (val_nodes m1) = length ns"
    and vs1: "\<forall>l<length ns. node_ok ns B (if l < length ns - 1 then Suc k else k) z (val_nodes m1) l"
    by (simp_all add: P_def)
  have vals1: "\<forall>l<length ns. node_ok ns B (Suc k) z (val_nodes m1) l"
  proof (intro allI impI)
    fix l assume l: "l < length ns"
    show "node_ok ns B (Suc k) z (val_nodes m1) l"
    proof (cases "l < length ns - 1")
      case True
      with vs1 l show ?thesis by auto
    next
      case False
      with l have "l = length ns - 1" by simp
      with vs1 l node_ok_last_Suc [OF L0(1), of B k z "val_nodes m1"] show ?thesis by auto
    qed
  qed
  have "\<exists>m2. (if recon then relax_sensory m1 update_mask else Inr m1) = Inr m2
          \<and> same_params m m2 \<and> preds m2 = preds m \<and> errs m2 = errs m
          \<and> length (val_nodes m2) = length ns
          \<and> (\<forall>l<length ns. node_ok ns B (Suc k) z (val_nodes m2) l)"
  proof (cases recon)
    case False
    then show ?thesis using sp1 fr1 l1 vals1 by simp
  next
    case True
    let ?n = "length ns - 1"
    have bl: "batched ns (Suc k) ?n" using L0 by (simp add: batched_def)
    from vals1 L0 have "node_ok ns B (Suc k) z (val_nodes m1) ?n" by simp
    from node_okD [OF this] bl obtain v where v: "val_nodes m1 ! ?n = Some v"
      "has_shape B (ns ! ?n) True v" "z \<longrightarrow> all_zero v" by auto
    have bl': "batched ns k ?n" using L0 by (simp add: batched_def)
    from b(5) L0 have "node_ok ns B k z (errs m) ?n" by simp
    from node_okD [OF this] bl' fr1 obtain e where e: "errs m1 ! ?n = Some e"
      "has_shape B (ns ! ?n) True e" "z \<longrightarrow> all_zero e" by auto
    have le: "length (errs m1) = length ns" using fr1 b by simp
    from True mask have mk: "has_shape B (ns ! ?n) True update_mask" by simp
    from relax_sensory_ok [OF L0(1) l1 le v e mk zl] obtain v'
      where v': "relax_sensory m1 update_mask
             = Inr (m1\<lparr>val_nodes := (val_nodes m1)[?n := Some v']\<rparr>)"
        "has_shape B (ns ! ?n) True v'" "z \<longrightarrow> all_zero v'"
      by blast
    let ?m2 = "m1\<lparr>val_nodes := (val_nodes m1)[?n := Some v']\<rparr>"
    have "same_params m ?m2" using sp1 by (rule same_params_trans) simp
    moreover have "node_ok ns B (Suc k) z (val_nodes ?m2) l" if "l < length ns" for l
    proof (cases "l = ?n")
      case True
      then show ?thesis using v'(2,3) bl l1 L0 by (simp add: node_ok_def)
    next
      case False
      with vals1 that show ?thesis by (simp add: node_ok_def)
    qed
    ultimately show ?thesis using True v'(1) fr1 l1 by auto
  qed
  then obtain m2 where m2: "(if recon then relax_sensory m1 update_mask else Inr m1) = Inr m2"
    "same_params m m2" "preds m2 = preds m" "errs m2 = errs m"
    "length (val_nodes m2) = length ns"
    "\<forall>l<length ns. node_ok ns B (Suc k) z (val_nodes m2) l"
    by blast
  have vm2: "valid_model ns m2" using m2(2) vm by (rule same_params_valid)
  have zm2: "z \<longrightarrow> zero_model m2" using m2(2) zm by (auto intro: same_params_zero)
  from update_err_nodes_ok [OF vm2 zm2 m2(5) _ _ m2(6) zl] m2(3,4) b
  obtain m' where m': "update_err_nodes m2 = Inr m'" "same_params m2 m'"
    "val_nodes m' = val_nodes m2" "bufs_ok ns B (Suc k) z m'" "preds_ok m'" by auto
  have "update_val_nodes m update_mask recon = Inr m'"
    using nl m1(1) m2(1) m'(1) by (simp add: update_val_nodes_def)
  moreover have "same_params m m'" using m2(2) m'(2) by (rule same_params_trans)
  ultimately show ?thesis using m'(4,5) by auto
qed

subsection \<open>The relaxation loop\<close>

lemma relax_ok:
  assumes vm: "valid_model ns (m :: 'a::{zero,plus,minus,uminus,times,sgn} pcn)" and zm: "z \<longrightarrow> zero_model m"
    and bufs: "bufs_ok ns B k z m" and po: "preds_ok m"
    and mask: "recon \<longrightarrow> has_shape B (ns ! (length ns - 1)) True update_mask"
    and zl: "z \<longrightarrow> exact_zero TYPE('a)"
  shows "\<exists>m'. relax update_mask recon n m = Inr m' \<and> same_params m m'
           \<and> bufs_ok ns B (k + n) z m' \<and> preds_ok m'"
proof -
  define P where "P j s \<longleftrightarrow> same_params m s \<and> bufs_ok ns B (k + j) z s \<and> preds_ok s" for j s
  have init: "P 0 m" using bufs po by (simp add: P_def)
  have step: "\<exists>s'. update_val_nodes s update_mask recon = Inr s' \<and> P (Suc j) s'"
    if "0 \<le> j" "j < n" "P j s" for j s
  proof -
    from that(3) have sp: "same_params m s" and bs: "bufs_ok ns B (k + j) z s"
      by (simp_all add: P_def)
    have vm': "valid_model ns s" using sp vm by (rule same_params_valid)
    have zm': "z \<longrightarrow> zero_model s" using sp zm by (auto intro: same_params_zero)
    from update_val_nodes_ok [OF vm' zm' bs mask zl] obtain s'
      where s': "update_val_nodes s update_mask recon = Inr s'" "same_params s s'"
        "bufs_ok ns B (Suc (k + j)) z s'" "preds_ok s'" by blast
    have "same_params m s'" using sp s'(2) by (rule same_params_trans)
    then have "P (Suc j) s'" using s'(3,4) by (auto simp: P_def)
    with s'(1) show ?thesis by blast
  qed
  from for_each_upt_rule [of P 0 m n "\<lambda>s itr. update_val_nodes s update_mask recon",
      OF init step]
  show ?thesis by (auto simp: relax_def P_def)
qed

subsection \<open>Gradients of a fully batched state\<close>

lemma shape_sum0_batched: "has_shape B n True e \<Longrightarrow> shape (neg (sum0 e)) = [n]"
  by (cases e) simp_all

lemma matmul_t_batched:
  assumes "has_shape B p True e" and "has_shape B n True x"
  shows "\<exists>g. matmul (tensor_t e) x = Inr g \<and> shape g = [p, n] \<and> rect g"
  using assms by (cases e; cases x) (auto simp: list_all_iff)

lemma shape_fill_diagonal_0:
  "shape p = [a, b] \<Longrightarrow> \<exists>d. fill_diagonal_0 p = Inr d \<and> shape d = [a, b]"
  by (cases p) auto

lemma grads_body_ok:
  assumes j: "Suc j < length ns" and lj: "j < length (layers s)" "j < length (nonlins s)"
    and len: "length (val_nodes s) = length ns" "length (errs s) = length ns"
    and f: "nonlins s ! j = Callable f"
    and vl: "valid_layer (use_bias s) (ns ! j) (ns ! Suc j) (layers s ! j)"
    and v: "val_nodes s ! j = Some v" "has_shape B (ns ! j) True v"
    and e1: "errs s ! Suc j = Some e1" "has_shape B (ns ! Suc j) True e1"
  shows "\<exists>wg bg. grads_body s j
            = Inr (s\<lparr>layers := (layers s)[j := (layers s ! j)\<lparr>weight_grad := Some wg,
                                                              bias_grad := bg\<rparr>]\<rparr>)
          \<and> shape wg = shape (weight (layers s ! j))
          \<and> (use_bias s \<longrightarrow> (\<exists>g b. bg = Some g \<and> bias (layers s ! j) = Some b
                                  \<and> shape g = shape b))"
proof -
  have ge: "get_node (errs s) (Suc j) = Inr e1" using j len e1(1) by (simp add: get_node_Some)
  have gv: "get_node (val_nodes s) j = Inr v" using j len v(1) by (simp add: get_node_Some)
  have "has_shape B (ns ! j) True (tmap (apply_fn f) v)" using v(2) by simp
  from matmul_t_batched [OF e1(2) this] obtain g
    where g: "matmul (tensor_t e1) (tmap (apply_fn f) v) = Inr g" "shape g = [ns ! Suc j, ns ! j]"
    by blast
  from vl have w: "shape (weight (layers s ! j)) = [ns ! Suc j, ns ! j]"
    by (simp add: valid_layer_def)
  have sg: "set_grad (weight (layers s ! j)) (neg g) = Inr (Some (neg g))"
    using g(2) w by (simp add: set_grad_def)
  show ?thesis
  proof (cases "use_bias s")
    case False
    then have "grads_body s j
        = Inr (s\<lparr>layers := (layers s)[j := (layers s ! j)\<lparr>weight_grad := Some (neg g),
                     bias_grad := bias_grad (layers s ! j)\<rparr>]\<rparr>)"
      using ge gv f g(1) lj sg by (simp add: grads_body_def py_get_def)
    with False g(2) w show ?thesis
      by (intro exI [of _ "neg g"] exI [of _ "bias_grad (layers s ! j)"]) simp
  next
    case True
    with vl obtain b where b: "bias (layers s ! j) = Some b" "shape b = [ns ! Suc j]"
      by (auto simp: valid_layer_def split: option.splits)
    have sb: "set_grad b (neg (sum0 e1)) = Inr (Some (neg (sum0 e1)))"
      using b(2) shape_sum0_batched [OF e1(2)] by (simp add: set_grad_def)
    have "grads_body s j
        = Inr (s\<lparr>layers := (layers s)[j := (layers s ! j)\<lparr>weight_grad := Some (neg g),
                     bias_grad := Some (neg (sum0 e1))\<rparr>]\<rparr>)"
      using True ge gv f g(1) lj sg b(1) sb by (simp add: grads_body_def py_get_def attr_def)
    moreover have "shape (neg (sum0 e1)) = shape b"
      using b(2) shape_sum0_batched [OF e1(2)] by simp
    ultimately show ?thesis using g(2) w b(1)
      by (intro exI [of _ "neg g"] exI [of _ "Some (neg (sum0 e1))"]) simp
  qed
qed

lemma valid_model_memory_grad [simp]:
  "valid_model ns (m\<lparr>memory_grad := g\<rparr>) = valid_model ns m"
  by (simp add: valid_model_def cong: pcn_class.case_cong)

lemma valid_model_Wr_grad [simp]:
  "valid_model ns (m\<lparr>Wr_grad := g\<rparr>) = valid_model ns m"
  by (simp add: valid_model_def cong: pcn_class.case_cong)

lemma grads_loop_ok:
  assumes vm: "valid_model ns m" and bufs: "bufs_ok ns B k z m" and k: "length ns \<le> Suc k"
  shows "\<exists>ls. for_each grads_body [0..<length ns - 1] m = Inr (m\<lparr>layers := ls\<rparr>)
           \<and> length ls = length ns - 1
           \<and> (\<forall>l<length ns - 1. layer_grads_match (use_bias m) (ls ! l)
                 \<and> weight (ls ! l) = weight (layers m ! l) \<and> bias (ls ! l) = bias (layers m ! l))"
proof -
  note b = bufs_okD [OF bufs]
  from vm have ll: "length (layers m) = length ns - 1" "length (nonlins m) = length ns - 1"
    by (simp_all add: valid_model_def)
  have bt: "batched ns k l" for l using k by (simp add: batched_def)
  define P where "P j s \<longleftrightarrow> (\<exists>ls. s = m\<lparr>layers := ls\<rparr> \<and> length ls = length ns - 1
      \<and> (\<forall>l<length ns - 1. weight (ls ! l) = weight (layers m ! l)
             \<and> bias (ls ! l) = bias (layers m ! l))
      \<and> (\<forall>l<j. layer_grads_match (use_bias m) (ls ! l)))" for j s
  have "m = m\<lparr>layers := layers m\<rparr>" by simp
  then have init: "P 0 m" unfolding P_def using ll by blast
  have step: "\<exists>s'. grads_body s j = Inr s' \<and> P (Suc j) s'"
    if "0 \<le> j" "j < length ns - 1" "P j s" for j s
  proof -
    from that(3) obtain ls where ls: "s = m\<lparr>layers := ls\<rparr>" "length ls = length ns - 1"
      "\<forall>l<length ns - 1. weight (ls ! l) = weight (layers m ! l)
             \<and> bias (ls ! l) = bias (layers m ! l)"
      "\<forall>l<j. layer_grads_match (use_bias m) (ls ! l)"
      unfolding P_def by blast
    from that(2) have j: "Suc j < length ns" "j < length ns" by simp_all
    from valid_model_nonlin [OF vm j(1)] obtain f where f: "nonlins m ! j = Callable f" by blast
    from valid_model_layer [OF vm j(1)] ls(3) that(2)
    have vl: "valid_layer (use_bias m) (ns ! j) (ns ! Suc j) (ls ! j)"
      by (simp add: valid_layer_def)
    from b(4) j(2) node_okD [of ns B k z "val_nodes m" j] bt obtain v
      where v: "val_nodes m ! j = Some v" "has_shape B (ns ! j) True v" by auto
    from b(5) j(1) node_okD [of ns B k z "errs m" "Suc j"] bt obtain e1
      where e1: "errs m ! Suc j = Some e1" "has_shape B (ns ! Suc j) True e1" by auto
    from grads_body_ok [of j ns s f v B e1] j ls(1,2) ll that(2) b f vl v e1
    obtain wg bg where g: "grads_body s j
            = Inr (s\<lparr>layers := (layers s)[j := (layers s ! j)\<lparr>weight_grad := Some wg,
                                                              bias_grad := bg\<rparr>]\<rparr>)"
        "shape wg = shape (weight (layers s ! j))"
        "use_bias s \<longrightarrow> (\<exists>g b. bg = Some g \<and> bias (layers s ! j) = Some b \<and> shape g = shape b)"
      by auto
    let ?ly = "(ls ! j)\<lparr>weight_grad := Some wg, bias_grad := bg\<rparr>"
    let ?ls' = "ls[j := ?ly]"
    have eq: "s\<lparr>layers := (layers s)[j := (layers s ! j)\<lparr>weight_grad := Some wg,
                                                              bias_grad := bg\<rparr>]\<rparr>
        = m\<lparr>layers := ?ls'\<rparr>" using ls(1) by simp
    have gm: "layer_grads_match (use_bias m) ?ly"
      using g(2,3) ls(1) by (auto simp: layer_grads_match_def)
    have "layer_grads_match (use_bias m) (?ls' ! l)" if "l < Suc j" for l
    proof (cases "l = j")
      case True
      then show ?thesis using gm ls(2) \<open>j < length ns - 1\<close> by simp
    next
      case False
      with that ls(4) show ?thesis by simp
    qed
    moreover have "weight (?ls' ! l) = weight (layers m ! l) \<and> bias (?ls' ! l) = bias (layers m ! l)"
      if "l < length ns - 1" for l
      using ls(3) that ls(2) by (cases "l = j") simp_all
    ultimately have "P (Suc j) (m\<lparr>layers := ?ls'\<rparr>)"
      unfolding P_def using ls(2) by (intro exI [of _ ?ls']) simp
    with g(1) eq show ?thesis by auto
  qed
  have le: "0 \<le> length ns - 1" by simp
  from for_each_upt_rule [of P 0 m "length ns - 1" grads_body, OF init step le]
  show ?thesis unfolding P_def by auto
qed

lemma update_grads_ok:
  assumes vm: "valid_model ns m" and bufs: "bufs_ok ns B k z m" and k: "length ns \<le> Suc k"
  shows "\<exists>m'. update_grads m = Inr m' \<and> grads_match m'"
proof -
  note b = bufs_okD [OF bufs]
  from vm have L: "2 \<le> length ns" and nl: "n_layers m = length ns"
    by (simp_all add: valid_model_def)
  from L have L0: "0 < length ns" by linarith
  have bt: "batched ns k l" for l using k by (simp add: batched_def)
  from b(5) L0 node_okD [of ns B k z "errs m" 0] bt obtain e0
    where e0: "errs m ! 0 = Some e0" "has_shape B (ns ! 0) True e0" by auto
  from b(4) L0 node_okD [of ns B k z "val_nodes m" 0] bt obtain v0
    where v0: "val_nodes m ! 0 = Some v0" "has_shape B (ns ! 0) True v0" by auto
  have ge: "get_node (errs m) 0 = Inr e0" using L0 b e0(1) by (simp add: get_node_Some)
  have gv: "get_node (val_nodes m) 0 = Inr v0" using L0 b v0(1) by (simp add: get_node_Some)
  from vm have sm: "shape (memory m) = [ns ! 0]" by (simp add: valid_model_def)
  have mg: "set_grad (memory m) (neg (sum0 e0)) = Inr (Some (neg (sum0 e0)))"
    using sm shape_sum0_batched [OF e0(2)] by (simp add: set_grad_def)
  have mgs: "shape (neg (sum0 e0)) = shape (memory m)"
    using sm shape_sum0_batched [OF e0(2)] by simp
  show ?thesis
  proof (cases "cls m")
    case MultilayerPCN
    with vm show ?thesis by (simp add: valid_model_def)
  next
    case HierarchicalPCN
    let ?m0 = "m\<lparr>memory_grad := Some (neg (sum0 e0))\<rparr>"
    have vm0: "valid_model ns ?m0" using vm by simp
    have b0: "bufs_ok ns B k z ?m0" using bufs by (simp add: bufs_ok_def)
    from grads_loop_ok [OF vm0 b0 k] obtain ls
      where ls: "for_each grads_body [0..<length ns - 1] ?m0 = Inr (?m0\<lparr>layers := ls\<rparr>)"
        "length ls = length ns - 1"
        "\<forall>l<length ns - 1. layer_grads_match (use_bias ?m0) (ls ! l)" by blast
    have "update_grads m = Inr (?m0\<lparr>layers := ls\<rparr>)"
      using HierarchicalPCN ge mg ls(1) nl by (simp add: update_grads_def)
    moreover have "list_all (layer_grads_match (use_bias m)) ls"
      using ls(2,3) by (auto simp: list_all_length)
    then have "grads_match (?m0\<lparr>layers := ls\<rparr>)"
      using HierarchicalPCN mgs by (simp add: grads_match_def)
    ultimately show ?thesis by blast
  next
    case HybridPCN
    with vm obtain wr where wr: "Wr m = Some wr" "shape wr = [ns ! 0, ns ! 0]"
      by (auto simp: valid_model_def split: option.splits)
    from matmul_t_batched [OF e0(2) v0(2)] obtain p
      where p: "matmul (tensor_t e0) v0 = Inr p" "shape p = [ns ! 0, ns ! 0]" by blast
    from shape_fill_diagonal_0 [OF p(2)] obtain d
      where d: "fill_diagonal_0 p = Inr d" "shape d = [ns ! 0, ns ! 0]" by blast
    have wg: "set_grad wr (neg d) = Inr (Some (neg d))"
      using wr(2) d(2) by (simp add: set_grad_def)
    let ?m0 = "m\<lparr>memory_grad := Some (neg (sum0 e0)), Wr_grad := Some (neg d)\<rparr>"
    have vm0: "valid_model ns ?m0" using vm by simp
    have b0: "bufs_ok ns B k z ?m0" using bufs by (simp add: bufs_ok_def)
    from grads_loop_ok [OF vm0 b0 k] obtain ls
      where ls: "for_each grads_body [0..<length ns - 1] ?m0 = Inr (?m0\<lparr>layers := ls\<rparr>)"
        "length ls = length ns - 1"
        "\<forall>l<length ns - 1. layer_grads_match (use_bias ?m0) (ls ! l)" by blast
    have "update_grads m = Inr (?m0\<lparr>layers := ls\<rparr>)"
      using HybridPCN ge gv mg p(1) d(1) wr(1) wg ls(1) nl
      by (simp add: update_grads_def attr_def)
    moreover have "list_all (layer_grads_match (use_bias m)) ls"
      using ls(2,3) by (auto simp: list_all_length)
    then have "grads_match (?m0\<lparr>layers := ls\<rparr>)"
      using HybridPCN mgs wr d(2) by (simp add: grads_match_def)
    ultimately show ?thesis by blast
  qed
qed

subsection \<open>Episodes\<close>

lemma valid_model_initialize: "valid_model ns m \<Longrightarrow> valid_model ns (initialize m)"
  by (rule same_params_valid [OF same_params_initialize])

lemma episode_start:
  assumes vm: "valid_model ns (m :: 'a::{zero,plus,minus,uminus,times,sgn} pcn)" and zm: "z \<longrightarrow> zero_model m"
    and inp: "rect batch_inp" "shape batch_inp = [B, ns ! (length ns - 1)]"
      "z \<longrightarrow> all_zero batch_inp"
    and zl: "z \<longrightarrow> exact_zero TYPE('a)"
  shows "\<exists>m1. set_nodes (initialize m) batch_inp = Inr m1 \<and> same_params m m1
           \<and> valid_model ns m1 \<and> (z \<longrightarrow> zero_model m1) \<and> bufs_ok ns B 0 z m1
           \<and> preds_ok m1
           \<and> val_nodes m1 ! 0 = Some (memory m)
           \<and> val_nodes m1 ! (length ns - 1) = Some batch_inp"
proof -
  from vm have nl: "n_layers m = length ns" by (simp add: valid_model_def)
  have vi: "valid_model ns (initialize m)" using vm by (rule valid_model_initialize)
  have zi: "z \<longrightarrow> zero_model (initialize m)"
    using zm same_params_zero [OF same_params_initialize] by blast
  have hs: "has_shape B (ns ! (length ns - 1)) True batch_inp"
    using inp by (simp add: has_shape_def)
  have mi: "memory (initialize m) = memory m" by (simp add: initialize_def)
  from set_nodes_ok [OF vi zi _ _ _ hs inp(3) zl] bufs_ok_initialize [OF nl] mi
  obtain m1 where m1: "set_nodes (initialize m) batch_inp = Inr m1"
    "same_params (initialize m) m1" "bufs_ok ns B 0 z m1" "preds_ok m1"
    "val_nodes m1 ! 0 = Some (memory m)" "val_nodes m1 ! (length ns - 1) = Some batch_inp"
    by auto
  have sp: "same_params m m1" using same_params_initialize m1(2) by (rule same_params_trans)
  moreover have "valid_model ns m1" using sp vm by (rule same_params_valid)
  moreover have "z \<longrightarrow> zero_model m1" using sp zm by (auto intro: same_params_zero)
  ultimately show ?thesis using m1 by blast
qed

lemma train_returns:
  assumes vm: "valid_model ns m"
    and inp: "rect batch_inp" "shape batch_inp = [B, ns ! (length ns - 1)]"
    and n: "int (length ns) - 1 \<le> n_iters"
  shows "\<exists>m'. train_pc_generative m batch_inp n_iters update_mask = Inr m' \<and> grads_match m'"
proof -
  from episode_start [of ns m False batch_inp B, OF vm _ inp]
  obtain m1 where m1: "set_nodes (initialize m) batch_inp = Inr m1" "valid_model ns m1"
    "bufs_ok ns B 0 False m1" "preds_ok m1" by auto
  from relax_ok [of ns m1 False B 0 False update_mask "nat n_iters", OF m1(2) _ m1(3,4)]
  obtain m2 where m2: "relax update_mask False (nat n_iters) m1 = Inr m2" "same_params m1 m2"
    "bufs_ok ns B (nat n_iters) False m2" by auto
  have vm2: "valid_model ns m2" using m2(2) m1(2) by (rule same_params_valid)
  from n have "length ns \<le> Suc (nat n_iters)" by linarith
  from update_grads_ok [OF vm2 m2(3) this] obtain m'
    where "update_grads m2 = Inr m'" "grads_match m'" by blast
  with m1(1) m2(1) show ?thesis by (simp add: train_pc_generative_def relax_def)
qed

lemma test_relaxed:
  assumes vm: "valid_model ns m"
    and inp: "rect corrupt_inp" "shape corrupt_inp = [B, ns ! (length ns - 1)]"
    and mask: "rect update_mask" "shape update_mask = [B, ns ! (length ns - 1)]"
  shows "\<exists>m1 m' v p. set_nodes (initialize m) corrupt_inp = Inr m1
           \<and> relax update_mask True n m1 = Inr m'
           \<and> length (val_nodes m') = length ns \<and> length (preds m') = length ns
           \<and> val_nodes m' ! (length ns - 1) = Some v \<and> rect v
           \<and> shape v = [B, ns ! (length ns - 1)]
           \<and> preds m' ! (length ns - 1) = Some p
           \<and> predict_from m' (length ns - 2) = Inr p"
proof -
  from vm have L: "2 \<le> length ns" by (simp add: valid_model_def)
  then have L0: "0 < length ns" "length ns - 1 < length ns" "length ns - 1 \<noteq> 0"
    "length ns - 1 - 1 = length ns - 2" by linarith+
  from episode_start [of ns m False corrupt_inp B, OF vm _ inp]
  obtain m1 where m1: "set_nodes (initialize m) corrupt_inp = Inr m1" "valid_model ns m1"
    "bufs_ok ns B 0 False m1" "preds_ok m1" by auto
  have mk: "True \<longrightarrow> has_shape B (ns ! (length ns - 1)) True update_mask"
    using mask by (simp add: has_shape_def)
  from relax_ok [OF m1(2) _ m1(3,4) mk, of n]
  obtain m2 where m2: "relax update_mask True n m1 = Inr m2" "same_params m1 m2"
    "bufs_ok ns B n False m2" "preds_ok m2"
    by auto
  note b = bufs_okD [OF m2(3)]
  from b(4) L0 node_okD [of ns B n False "val_nodes m2" "length ns - 1"] batched_last [OF L0(1), of n]
  obtain v where v: "val_nodes m2 ! (length ns - 1) = Some v" "rect v"
    "shape v = [B, ns ! (length ns - 1)]" by (auto simp: has_shape_def)
  from m1(2) m2(2) have "n_layers m2 = length ns"
    by (simp add: valid_model_def same_params_fields)
  with m2(4) have "\<forall>l<length ns. case preds m2 ! l of None \<Rightarrow> False
      | Some p \<Rightarrow> (if l = 0 then top_pred m2 else predict_from m2 (l - 1)) = Inr p"
    by (simp add: preds_ok_def list_all_iff)
  with L0(2) have "case preds m2 ! (length ns - 1) of None \<Rightarrow> False
      | Some p \<Rightarrow> (if length ns - 1 = 0 then top_pred m2
                   else predict_from m2 (length ns - 1 - 1)) = Inr p" by blast
  then obtain p where "preds m2 ! (length ns - 1) = Some p"
    "(if length ns - 1 = 0 then top_pred m2 else predict_from m2 (length ns - 1 - 1)) = Inr p"
    by (cases "preds m2 ! (length ns - 1)") auto
  with L0(3,4) have p: "preds m2 ! (length ns - 1) = Some p"
    "predict_from m2 (length ns - 2) = Inr p" by simp_all
  from m1(1) m2(1) b(1,2) v p show ?thesis by auto
qed

subsection \<open>What a completed call has computed\<close>

lemma for_each_upt_partial:
  assumes step: "\<And>j s s'. a \<le> j \<Longrightarrow> j < b \<Longrightarrow> P j s \<Longrightarrow> body s j = Inr s' \<Longrightarrow> P (Suc j) s'"
    and init: "P a s"
  shows "a \<le> c \<Longrightarrow> c \<le> b \<Longrightarrow> for_each body [a..<c] s = Inr s' \<Longrightarrow> P c s'"
proof (induction c arbitrary: s')
  case 0
  then show ?case using init by simp
next
  case (Suc c)
  show ?case
  proof (cases "a = Suc c")
    case True
    then show ?thesis using init Suc.prems by simp
  next
    case False
    with Suc.prems have le: "a \<le> c" and lt: "c < b" by simp_all
    have "[a..<Suc c] = [a..<c] @ [c]" using le by simp
    with Suc.prems(3) have "and_then (for_each body [a..<c] s) (for_each body [c]) = Inr s'"
      by (simp only: for_each_append)
    then obtain s1 where s1: "for_each body [a..<c] s = Inr s1" "for_each body [c] s1 = Inr s'"
      unfolding and_then_eq_Inr by blast
    from s1(2) have s2: "body s1 c = Inr s'" by (cases "body s1 c") simp_all
    from Suc.IH [OF le _ s1(1)] lt have "P c s1" by simp
    from step [OF le lt this s2] show ?thesis .
  qed
qed

lemma get_node_eq_Inr:
  "get_node buf l = Inr v \<longleftrightarrow> l < length buf \<and> buf ! l = Some v"
  by (auto simp: get_node_def py_get_def as_tensor_def and_then_eq_Inr split: option.splits)

lemma py_get_eq_Inr: "py_get xs i = Inr x \<longleftrightarrow> i < length xs \<and> x = xs ! i"
  by (auto simp: py_get_def)

lemma py_set_eq_Inr: "py_set xs i v = Inr ys \<longleftrightarrow> i < length xs \<and> ys = xs[i := v]"
  by (auto simp: py_set_def)

lemma deriv_attr_eq_Inr: "deriv_attr nl = Inr f \<longleftrightarrow> nl = Callable f"
  by (cases nl) auto

lemma call_nonlin_eq_Inr: "call_nonlin nl v = Inr d \<longleftrightarrow> (\<exists>f. nl = Callable f \<and> d = tmap (apply_fn f) v)"
  by (cases nl) auto

lemma update_val_body_char:
  assumes "update_val_body s j = Inr s'"
  shows "\<exists>f v e e1 delta v'. j < length (val_nodes s) \<and> nonlins s ! j = Callable f
           \<and> val_nodes s ! j = Some v \<and> errs s ! j = Some e \<and> errs s ! Suc j = Some e1
           \<and> spec_delta (if j = 0 then lamb s else 0) f v e e1 (weight (layers s ! j)) = Inr delta
           \<and> tadd v (smul (Dt s) delta) = Inr v'
           \<and> s' = s\<lparr>val_nodes := (val_nodes s)[j := Some v']\<rparr>"
proof -
  let ?pen = "if j = 0 then lamb s else 0"
  from assms obtain nl f v e a e1 ly g b delta v' vs
    where h: "py_get (nonlins s) j = Inr nl" "get_node (val_nodes s) j = Inr v"
      "deriv_attr nl = Inr f" "get_node (errs s) j = Inr e"
      "tsub (neg e) (smul ?pen (sign v)) = Inr a" "get_node (errs s) (j + 1) = Inr e1"
      "py_get (layers s) j = Inr ly" "matmul e1 (weight ly) = Inr g"
      "tmul (tmap (deriv_fn f) v) g = Inr b" "tadd a b = Inr delta"
      "tadd v (smul (Dt s) delta) = Inr v'" "py_set (val_nodes s) j (Some v') = Inr vs"
      "s' = s\<lparr>val_nodes := vs\<rparr>"
    unfolding update_val_body_def Let_def and_then_eq_Inr by blast
  from h(1,3) have f: "nonlins s ! j = Callable f"
    by (auto simp: py_get_eq_Inr deriv_attr_eq_Inr)
  from h(7) have ly: "ly = layers s ! j" by (simp add: py_get_eq_Inr)
  have "spec_delta ?pen f v e e1 (weight (layers s ! j)) = Inr delta"
    using h(5,8,9,10) ly by (simp add: spec_delta_def)
  moreover from h(2,4,6) have "j < length (val_nodes s)" "val_nodes s ! j = Some v"
    "errs s ! j = Some e" "errs s ! Suc j = Some e1"
    by (simp_all add: get_node_eq_Inr)
  moreover from h(12,13) have "s' = s\<lparr>val_nodes := (val_nodes s)[j := Some v']\<rparr>"
    by (simp add: py_set_eq_Inr)
  ultimately show ?thesis using f h(11) by blast
qed

lemma update_err_body_val_nodes:
  assumes "update_err_body s j = Inr s'"
  shows "val_nodes s' = val_nodes s"
proof -
  from assms obtain ps es where "s' = s\<lparr>preds := ps, errs := es\<rparr>"
    unfolding update_err_body_def and_then_eq_Inr by blast
  then show ?thesis by simp
qed

lemma update_err_nodes_val_nodes:
  assumes "update_err_nodes m = Inr m'"
  shows "val_nodes m' = val_nodes m"
proof -
  from assms have fe: "for_each update_err_body [0..<n_layers m] m = Inr m'"
    by (cases "cls m") (simp_all add: update_err_nodes_def)
  define P where "P j s \<longleftrightarrow> val_nodes s = val_nodes m" for j :: nat and s :: "_ pcn"
  have step: "P (Suc j) s'"
    if "0 \<le> j" "j < n_layers m" "P j s" "update_err_body s j = Inr s'" for j s s'
    using that update_err_body_val_nodes [of s j s'] by (simp add: P_def)
  have init: "P 0 m" by (simp add: P_def)
  from for_each_upt_partial [of 0 "n_layers m" P update_err_body m "n_layers m" m', OF step init] fe
  show ?thesis by (simp add: P_def)
qed

lemma relax_sensory_char:
  assumes "relax_sensory s update_mask = Inr s'"
  shows "\<exists>x. s' = s\<lparr>val_nodes := (val_nodes s)[length (val_nodes s) - 1 := x]\<rparr>"
proof -
  from assms obtain v' vs where vs: "py_set_last (val_nodes s) (Some v') = Inr vs"
    "s' = s\<lparr>val_nodes := vs\<rparr>"
    unfolding relax_sensory_def and_then_eq_Inr by auto
  from vs(1) have "vs = (val_nodes s)[length (val_nodes s) - 1 := Some v']"
    by (simp add: py_set_last_def split: if_splits)
  with vs(2) show ?thesis by blast
qed

lemma update_val_loop_char:
  assumes fe: "for_each update_val_body [0..<n] m = Inr m1"
  shows "\<exists>vs. m1 = m\<lparr>val_nodes := vs\<rparr> \<and> length vs = length (val_nodes m)
           \<and> (\<forall>l<n. \<exists>f v e e1 delta v'. nonlins m ! l = Callable f
                 \<and> val_nodes m ! l = Some v \<and> errs m ! l = Some e \<and> errs m ! Suc l = Some e1
                 \<and> spec_delta (if l = 0 then lamb m else 0) f v e e1 (weight (layers m ! l))
                     = Inr delta
                 \<and> tadd v (smul (Dt m) delta) = Inr v' \<and> vs ! l = Some v')"
proof -
  define G where "G l x \<longleftrightarrow> (\<exists>f v e e1 delta v'. nonlins m ! l = Callable f
                 \<and> val_nodes m ! l = Some v \<and> errs m ! l = Some e \<and> errs m ! Suc l = Some e1
                 \<and> spec_delta (if l = 0 then lamb m else 0) f v e e1 (weight (layers m ! l))
                     = Inr delta
                 \<and> tadd v (smul (Dt m) delta) = Inr v' \<and> x = Some v')" for l x
  define P where "P j s \<longleftrightarrow> (\<exists>vs. s = m\<lparr>val_nodes := vs\<rparr> \<and> length vs = length (val_nodes m)
      \<and> (\<forall>l\<ge>j. vs ! l = val_nodes m ! l) \<and> (\<forall>l<j. G l (vs ! l)))" for j and s :: "_ pcn"
  have "m = m\<lparr>val_nodes := val_nodes m\<rparr>" by simp
  then have init: "P 0 m" unfolding P_def by blast
  have step: "P (Suc j) s'" if "0 \<le> j" "j < n" "P j s" "update_val_body s j = Inr s'" for j s s'
  proof -
    from that(3) obtain vs where vs: "s = m\<lparr>val_nodes := vs\<rparr>"
      "length vs = length (val_nodes m)" "\<forall>l\<ge>j. vs ! l = val_nodes m ! l"
      "\<forall>l<j. G l (vs ! l)" unfolding P_def by blast
    from update_val_body_char [OF that(4)] obtain f v e e1 delta v'
      where c: "j < length (val_nodes s)" "nonlins s ! j = Callable f"
        "val_nodes s ! j = Some v" "errs s ! j = Some e" "errs s ! Suc j = Some e1"
        "spec_delta (if j = 0 then lamb s else 0) f v e e1 (weight (layers s ! j)) = Inr delta"
        "tadd v (smul (Dt s) delta) = Inr v'"
        "s' = s\<lparr>val_nodes := (val_nodes s)[j := Some v']\<rparr>" by blast
    from c(3) vs(1,3) have vj: "val_nodes m ! j = Some v" by simp
    have Gj: "G j (Some v')"
      unfolding G_def using c(2,4,5,6,7) vj vs(1) by auto
    let ?vs' = "vs[j := Some v']"
    have "s' = m\<lparr>val_nodes := ?vs'\<rparr>" using c(8) vs(1) by simp
    moreover have "\<forall>l\<ge>Suc j. ?vs' ! l = val_nodes m ! l" using vs(3) by simp
    moreover have "G l (?vs' ! l)" if "l < Suc j" for l
    proof (cases "l = j")
      case True
      then show ?thesis using Gj c(1) vs(1) by simp
    next
      case False
      with that vs(4) show ?thesis by simp
    qed
    ultimately show ?thesis unfolding P_def using vs(2) by (intro exI [of _ ?vs']) simp
  qed
  from for_each_upt_partial [of 0 n P update_val_body m n m1, OF step init] fe
  have "P n m1" by simp
  then obtain vs where "m1 = m\<lparr>val_nodes := vs\<rparr>" "length vs = length (val_nodes m)"
    "\<forall>l<n. G l (vs ! l)" unfolding P_def by blast
  then show ?thesis unfolding G_def by blast
qed

subsection \<open>What the gradient step has computed\<close>

lemma grads_body_char:
  assumes "grads_body s j = Inr s'"
  shows "\<exists>f v e1 g bg. j < length (layers s) \<and> nonlins s ! j = Callable f
           \<and> val_nodes s ! j = Some v \<and> errs s ! Suc j = Some e1
           \<and> matmul (tensor_t e1) (tmap (apply_fn f) v) = Inr g
           \<and> (use_bias s \<longrightarrow> bg = Some (neg (sum0 e1)))
           \<and> s' = s\<lparr>layers := (layers s)[j := (layers s ! j)\<lparr>weight_grad := Some (neg g),
                                                               bias_grad := bg\<rparr>]\<rparr>"
proof -
  from assms obtain e1 nl v x g ly wg bg
    where h: "get_node (errs s) (j + 1) = Inr e1" "py_get (nonlins s) j = Inr nl"
      "get_node (val_nodes s) j = Inr v" "call_nonlin nl v = Inr x"
      "matmul (tensor_t e1) x = Inr g" "py_get (layers s) j = Inr ly"
      "set_grad (weight ly) (neg g) = Inr wg"
      "(if use_bias s
               then and_then (get_node (errs s) (j + 1)) (\<lambda>e1'.
                    and_then (attr (bias ly)) (\<lambda>bv.
                    set_grad bv (neg (sum0 e1'))))
               else Inr (bias_grad ly)) = Inr bg"
      "s' = s\<lparr>layers := (layers s)[j := ly\<lparr>weight_grad := wg, bias_grad := bg\<rparr>]\<rparr>"
    unfolding grads_body_def and_then_eq_Inr by blast
  from h(2,4) obtain f where f: "nonlins s ! j = Callable f" "x = tmap (apply_fn f) v"
    by (auto simp: py_get_eq_Inr call_nonlin_eq_Inr)
  from h(6) have ly: "ly = layers s ! j" "j < length (layers s)" by (simp_all add: py_get_eq_Inr)
  from h(7) have wg: "wg = Some (neg g)" by (simp add: set_grad_def split: if_splits)
  have bg: "bg = Some (neg (sum0 e1))" if "use_bias s"
    using that h(8) h(1)
    by (auto simp: and_then_eq_Inr set_grad_def split: if_splits)
  from h(1,3) have "val_nodes s ! j = Some v" "errs s ! Suc j = Some e1"
    by (simp_all add: get_node_eq_Inr)
  with f h(5,9) ly wg bg show ?thesis by blast
qed

lemma grads_loop_char:
  assumes fe: "for_each grads_body [0..<n] m0 = Inr m'"
  shows "\<exists>ls. m' = m0\<lparr>layers := ls\<rparr>
           \<and> (\<forall>l<n. \<exists>f v e1 g. nonlins m0 ! l = Callable f \<and> val_nodes m0 ! l = Some v
                 \<and> errs m0 ! Suc l = Some e1
                 \<and> matmul (tensor_t e1) (tmap (apply_fn f) v) = Inr g
                 \<and> weight_grad (ls ! l) = Some (neg g)
                 \<and> (use_bias m0 \<longrightarrow> bias_grad (ls ! l) = Some (neg (sum0 e1))))"
proof -
  define G where "G l ly \<longleftrightarrow> (\<exists>f v e1 g. nonlins m0 ! l = Callable f \<and> val_nodes m0 ! l = Some v
                 \<and> errs m0 ! Suc l = Some e1
                 \<and> matmul (tensor_t e1) (tmap (apply_fn f) v) = Inr g
                 \<and> weight_grad ly = Some (neg g)
                 \<and> (use_bias m0 \<longrightarrow> bias_grad ly = Some (neg (sum0 e1))))"
    for l and ly :: "_ linear_layer"
  define P where "P j s \<longleftrightarrow> (\<exists>ls. s = m0\<lparr>layers := ls\<rparr> \<and> (\<forall>l<j. G l (ls ! l)))"
    for j and s :: "_ pcn"
  have "m0 = m0\<lparr>layers := layers m0\<rparr>" by simp
  then have init: "P 0 m0" unfolding P_def by blast
  have step: "P (Suc j) s'" if "0 \<le> j" "j < n" "P j s" "grads_body s j = Inr s'" for j s s'
  proof -
    from that(3) obtain ls where ls: "s = m0\<lparr>layers := ls\<rparr>" "\<forall>l<j. G l (ls ! l)"
      unfolding P_def by blast
    from grads_body_char [OF that(4)] obtain f v e1 g bg
      where c: "j < length (layers s)" "nonlins s ! j = Callable f"
        "val_nodes s ! j = Some v" "errs s ! Suc j = Some e1"
        "matmul (tensor_t e1) (tmap (apply_fn f) v) = Inr g"
        "use_bias s \<longrightarrow> bg = Some (neg (sum0 e1))"
        "s' = s\<lparr>layers := (layers s)[j := (layers s ! j)\<lparr>weight_grad := Some (neg g),
                                                               bias_grad := bg\<rparr>]\<rparr>" by blast
    let ?ly = "(ls ! j)\<lparr>weight_grad := Some (neg g), bias_grad := bg\<rparr>"
    have Gj: "G j ?ly" unfolding G_def using c(2-6) ls(1) by auto
    have "s' = m0\<lparr>layers := ls[j := ?ly]\<rparr>" using c(7) ls(1) by simp
    moreover have "G l (ls[j := ?ly] ! l)" if "l < Suc j" for l
    proof (cases "l = j")
      case True
      then show ?thesis using Gj c(1) ls(1) by simp
    next
      case False
      with that ls(2) show ?thesis by simp
    qed
    ultimately show ?thesis unfolding P_def by blast
  qed
  from for_each_upt_partial [of 0 n P grads_body m0 n m', OF step init] fe
  have "P n m'" by simp
  then obtain ls where "m' = m0\<lparr>layers := ls\<rparr>" "\<forall>l<n. G l (ls ! l)"
    unfolding P_def by blast
  then show ?thesis unfolding G_def by blast
qed

lemma matmul_rect: "matmul a b = Inr p \<Longrightarrow> rect p"
  by (cases a; cases b) (auto simp: list_all_iff split: if_splits)

lemma diagonal_fill_zero:
  assumes "fill_diagonal_0 p = Inr (d :: real tensor)" and "rect p"
  shows "list_all (\<lambda>x. x = 0) (diagonal (neg d))"
proof (cases p)
  case (T2 c rs)
  with assms(1) have d: "d = T2 c (map (\<lambda>i. (rs ! i)[i := 0]) [0..<length rs])" by auto
  have "map (map uminus) (map (\<lambda>i. (rs ! i)[i := 0]) [0..<length rs]) ! i ! i = 0"
    if "i < length rs" "i < c" for i
  proof -
    from that(1) assms(2) T2 have "length (rs ! i) = c" by (simp add: list_all_length)
    with that show ?thesis by simp
  qed
  then show ?thesis using d by (simp add: neg_def list_all_iff)
qed (use assms in auto)

subsection \<open>The parameters are left alone\<close>





subsection \<open>A gradient that was accepted has the parameter's shape\<close>





subsection \<open>The sensory layer in one reconstruction step\<close>

lemma update_val_loop_frame:
  assumes fe: "for_each update_val_body [0..<n] m = Inr m1"
  shows "errs m1 = errs m \<and> Dt m1 = Dt m \<and> length (val_nodes m1) = length (val_nodes m)
           \<and> (\<forall>l\<ge>n. val_nodes m1 ! l = val_nodes m ! l)"
proof -
  define P where "P j s \<longleftrightarrow> errs s = errs m \<and> Dt s = Dt m
      \<and> length (val_nodes s) = length (val_nodes m)
      \<and> (\<forall>l\<ge>j. val_nodes s ! l = val_nodes m ! l)" for j :: nat and s :: "_ pcn"
  have init: "P 0 m" by (simp add: P_def)
  have step: "P (Suc j) s'" if "0 \<le> j" "j < n" "P j s" "update_val_body s j = Inr s'" for j s s'
  proof -
    from update_val_body_char [OF that(4)] obtain v'
      where "s' = s\<lparr>val_nodes := (val_nodes s)[j := Some v']\<rparr>" by blast
    with that(3) show ?thesis by (simp add: P_def)
  qed
  from for_each_upt_partial [of 0 n P update_val_body m n m1, OF step init] fe
  show ?thesis by (simp add: P_def)
qed

lemma relax_sensory_step:
  assumes "relax_sensory s update_mask = Inr s'"
  shows "\<exists>v e d v'. val_nodes s ! (length (val_nodes s) - 1) = Some v
           \<and> errs s ! (length (errs s) - 1) = Some e
           \<and> tmul (neg e) update_mask = Inr d \<and> tadd v (smul (Dt s) d) = Inr v'
           \<and> s' = s\<lparr>val_nodes := (val_nodes s)[length (val_nodes s) - 1 := Some v']\<rparr>
           \<and> val_nodes s \<noteq> []"
proof -
  from assms obtain v e d v' vs
    where h: "and_then (py_get_last (val_nodes s)) as_tensor = Inr v"
      "and_then (py_get_last (errs s)) as_tensor = Inr e"
      "tmul (neg e) update_mask = Inr d" "tadd v (smul (Dt s) d) = Inr v'"
      "py_set_last (val_nodes s) (Some v') = Inr vs" "s' = s\<lparr>val_nodes := vs\<rparr>"
    unfolding relax_sensory_def and_then_eq_Inr [of _ _ s'] by blast
  from h(1) have v: "val_nodes s ! (length (val_nodes s) - 1) = Some v"
    by (auto simp: and_then_eq_Inr py_get_last_def as_tensor_def split: if_splits option.splits)
  from h(2) have e: "errs s ! (length (errs s) - 1) = Some e"
    by (auto simp: and_then_eq_Inr py_get_last_def as_tensor_def split: if_splits option.splits)
  from h(5) have "vs = (val_nodes s)[length (val_nodes s) - 1 := Some v']" "val_nodes s \<noteq> []"
    by (simp_all add: py_set_last_def split: if_splits)
  with h(3,4,6) v e show ?thesis by blast
qed

lemma update_val_nodes_sensory:
  assumes uv: "update_val_nodes m update_mask True = Inr m'"
    and len: "length (val_nodes m) = n_layers m" "length (errs m) = n_layers m"
  shows "\<exists>v e d v'. val_nodes m ! (n_layers m - 1) = Some v
           \<and> errs m ! (n_layers m - 1) = Some e
           \<and> tmul (neg e) update_mask = Inr d \<and> tadd v (smul (Dt m) d) = Inr v'
           \<and> val_nodes m' ! (n_layers m - 1) = Some v'"
proof -
  from uv obtain m1 m2 where s: "for_each update_val_body [0..<n_layers m - 1] m = Inr m1"
    "relax_sensory m1 update_mask = Inr m2" "update_err_nodes m2 = Inr m'"
    unfolding update_val_nodes_def and_then_eq_Inr by auto
  from update_val_loop_frame [OF s(1)]
  have f: "errs m1 = errs m" "Dt m1 = Dt m" "length (val_nodes m1) = length (val_nodes m)"
    "val_nodes m1 ! (n_layers m - 1) = val_nodes m ! (n_layers m - 1)" by simp_all
  from relax_sensory_step [OF s(2)] obtain v e d v'
    where r: "val_nodes m1 ! (length (val_nodes m1) - 1) = Some v"
      "errs m1 ! (length (errs m1) - 1) = Some e"
      "tmul (neg e) update_mask = Inr d" "tadd v (smul (Dt m1) d) = Inr v'"
      "m2 = m1\<lparr>val_nodes := (val_nodes m1)[length (val_nodes m1) - 1 := Some v']\<rparr>"
      "val_nodes m1 \<noteq> []" by blast
  from r(6) f(3) len have "n_layers m - 1 < length (val_nodes m1)" by (cases "val_nodes m1") auto
  with update_err_nodes_val_nodes [OF s(3)] r(5) f(3) len
  have "val_nodes m' ! (n_layers m - 1) = Some v'" by simp
  moreover from r(1) f(3,4) len have "val_nodes m ! (n_layers m - 1) = Some v" by simp
  moreover from r(2) f(1) len have "errs m ! (n_layers m - 1) = Some e" by simp
  moreover from r(4) f(2) have "tadd v (smul (Dt m) d) = Inr v'" by simp
  ultimately show ?thesis using r(3) by blast
qed

subsection \<open>Binary32 arithmetic\<close>

lemma round32_0 [simp]: "round32 0 = Fin 0"
  by (simp add: round32_def round_even_def)

lemma round32_1: "round32 1 = Fin 1"
  by (simp add: round32_def round_even_def ulp_def power_int_minus)

lemma ulp_pow2: "ulp (2 ^ k) = 2 powi (int k - 23)"
proof -
  have "\<bar>2 ^ k :: real\<bar> = 2 ^ k" by simp
  moreover have "\<lfloor>log 2 (2 ^ k)\<rfloor> = int k" by simp
  ultimately show ?thesis unfolding ulp_def by simp
qed

lemma round_even_of_int [simp]: "round_even (of_int n) = n"
  by (simp add: round_even_def)

lemma round32_pow2:
  assumes "k \<le> 127"
  shows "round32 (2 ^ k) = Fin (2 ^ k)"
proof -
  have "(2::real) ^ k \<le> 2 ^ 127" using assms by (intro power_increasing) simp_all
  then have small: "\<not> 2 ^ 128 - 2 ^ 103 \<le> \<bar>2 ^ k :: real\<bar>" by simp
  have "(2::real) ^ k / 2 powi (int k - 23) = 2 powi 23"
    by (simp add: power_int_diff)
  also have "\<dots> = of_int (2 ^ 23)" by simp
  finally have q: "(2::real) ^ k / ulp (2 ^ k) = of_int (2 ^ 23)" by (simp add: ulp_pow2)
  have "of_int (round_even (2 ^ k / ulp (2 ^ k))) * ulp (2 ^ k) = (2::real) ^ k"
    unfolding q round_even_of_int by (simp add: ulp_pow2 power_int_diff)
  with small show ?thesis by (simp add: round32_def)
qed

lemma same_or_nan_refl [simp]: "same_or_nan x x"
  by (simp add: same_or_nan_def)

lemma frozen_or_nan_refl [simp]: "frozen_or_nan x x"
  by (cases x) (simp_all add: list_all2_same)

text \<open>
  One relaxation step of a sensory entry under a zero mask entry: the increment
  \<open>Dt * (-e * 0)\<close> is 0, or NaN when \<open>e\<close> or \<open>Dt\<close> is not finite.
\<close>

lemma f32_frozen_entry:
  assumes "is_f32 x" and "same_or_nan x v"
  shows "same_or_nan x (v + dt * (- e * 0))"
proof -
  have "- e * 0 = 0 \<or> - e * 0 = NaN"
    by (cases e) (simp_all add: times_f32_def uminus_f32_def zero_f32_def)
  then have "dt * (- e * 0) = 0 \<or> dt * (- e * 0) = NaN"
    by (cases dt) (auto simp: times_f32_def zero_f32_def)
  moreover have "v + 0 = v" if "v = x \<or> v = NaN"
    using that assms(1) by (cases x) (auto simp: plus_f32_def zero_f32_def)
  moreover have "v + NaN = NaN" by (cases v) (simp_all add: plus_f32_def)
  ultimately show ?thesis using assms(2) by (auto simp: same_or_nan_def)
qed

lemma f32_exact_entry:
  assumes "is_f32 a" and "is_fin e" and "is_fin dt"
  shows "a + dt * (- e * 0) = a"
proof -
  from assms(2) have "- e * 0 = 0"
    by (cases e) (simp_all add: times_f32_def uminus_f32_def zero_f32_def)
  with assms(3) have "dt * (- e * 0) = 0"
    by (cases dt) (simp_all add: times_f32_def zero_f32_def)
  with assms(1) show ?thesis by (cases a) (simp_all add: plus_f32_def zero_f32_def)
qed

lemma bin_same_shape:
  assumes "length rs = length rs'" and "\<forall>r\<in>set rs. length r = n" and "\<forall>r\<in>set rs'. length r = n"
  shows "bin f (T2 n rs) (T2 n rs') = Inr (T2 n (map2 (map2 f) rs rs'))"
proof -
  have "map2 (row_bc f n) rs rs' = map2 (map2 f) rs rs'"
    using assms by (induction rs rs' rule: list_induct2) (simp_all add: row_bc_same)
  with assms(1) show ?thesis by (simp add: expand_same)
qed

lemma frozen_step:
  assumes hv: "has_shape B n True v" and he: "has_shape B n True e"
    and hm: "has_shape B n True update_mask" and z: "all_zero update_mask"
    and d: "tmul (neg e) update_mask = Inr d" and v': "tadd v (smul dt d) = Inr v'"
    and x: "tensor_all is_f32 x" and fr: "frozen_or_nan x v"
  shows "frozen_or_nan x v'"
proof -
  from hv obtain rv where rv: "v = T2 n rv" "length rv = B" "\<forall>r\<in>set rv. length r = n"
    by (cases v) auto
  from he obtain re where re: "e = T2 n re" "length re = B" "\<forall>r\<in>set re. length r = n"
    by (cases e) auto
  from hm z obtain rm where rm: "update_mask = T2 n rm" "length rm = B"
    "\<forall>r\<in>set rm. length r = n" "\<forall>r\<in>set rm. \<forall>a\<in>set r. a = 0"
    by (cases update_mask) (auto simp: list_all_iff)
  from fr rv(1) obtain rx where rx: "x = T2 n rx" "list_all2 (list_all2 same_or_nan) rx rv"
    by (cases x) auto
  let ?rd = "map2 (map2 (*)) (map (map uminus) re) rm"
  have "d = T2 n ?rd"
    using d re rm bin_same_shape [of "map (map uminus) re" rm n "(*)"]
    by (simp add: tmul_def neg_def)
  then have sd: "smul dt d = T2 n (map (map ((*) dt)) ?rd)" by (simp add: smul_def)
  let ?rv' = "map2 (map2 (+)) rv (map (map ((*) dt)) ?rd)"
  have rd_len: "length (map (map ((*) dt)) ?rd) = B" using re rm by simp
  have rd_rows: "\<forall>r\<in>set (map (map ((*) dt)) ?rd). length r = n"
  proof
    fix r assume "r \<in> set (map (map ((*) dt)) ?rd)"
    then obtain p q where pq: "(p, q) \<in> set (zip (map (map uminus) re) rm)"
      "r = map ((*) dt) (map2 (*) p q)" by auto
    then have "p \<in> set (map (map uminus) re)" "q \<in> set rm"
      by (auto dest: set_zip_leftD set_zip_rightD)
    with re(3) rm(3) pq(2) show "length r = n" by auto
  qed
  have v'_eq: "v' = T2 n ?rv'"
    using v' sd rv rd_len rd_rows bin_same_shape [of rv "map (map ((*) dt)) ?rd" n "(+)"]
    by (simp add: tadd_def)
  from rx(2) have lx: "length rx = B" using rv(2) by (simp add: list_all2_lengthD)
  have "list_all2 same_or_nan (rx ! i) (?rv' ! i)" if i: "i < B" for i
  proof -
    from rx(2) i lx have ri: "list_all2 same_or_nan (rx ! i) (rv ! i)"
      by (simp add: list_all2_conv_all_nth)
    from i rv re rm have ln: "length (rv ! i) = n" "length (re ! i) = n" "length (rm ! i) = n"
      by simp_all
    from ri ln have lxi: "length (rx ! i) = n" by (simp add: list_all2_lengthD)
    have row: "?rv' ! i = map2 (+) (rv ! i)
        (map ((*) dt) (map2 (*) (map uminus (re ! i)) (rm ! i)))"
      using i rv(2) re(2) rm(2) by simp
    have "same_or_nan (rx ! i ! j)
        (map2 (+) (rv ! i) (map ((*) dt) (map2 (*) (map uminus (re ! i)) (rm ! i))) ! j)"
      if j: "j < n" for j
    proof -
      from i rm(2) have "rm ! i \<in> set rm" by simp
      moreover from j ln have "rm ! i ! j \<in> set (rm ! i)" by simp
      ultimately have m0: "rm ! i ! j = 0" using rm(4) by blast
      from x rx(1) i lx j lxi have "is_f32 (rx ! i ! j)" by (simp add: list_all_length)
      moreover from ri j lxi have "same_or_nan (rx ! i ! j) (rv ! i ! j)"
        by (simp add: list_all2_conv_all_nth)
      ultimately have "same_or_nan (rx ! i ! j) (rv ! i ! j + dt * (- (re ! i ! j) * 0))"
        by (rule f32_frozen_entry)
      with j ln m0 show ?thesis by simp
    qed
    with lxi ln show ?thesis unfolding row by (simp add: list_all2_conv_all_nth)
  qed
  moreover have "length ?rv' = B" using rv(2) rd_len by simp
  ultimately have "list_all2 (list_all2 same_or_nan) rx ?rv'"
    using lx by (simp add: list_all2_conv_all_nth)
  with rx(1) v'_eq show ?thesis by simp
qed

lemma frozen_step_exact:
  assumes hv: "has_shape B n True v" and he: "has_shape B n True e"
    and hm: "has_shape B n True update_mask" and z: "all_zero update_mask"
    and d: "tmul (neg e) update_mask = Inr d" and v': "tadd v (smul dt d) = Inr v'"
    and fv: "tensor_all is_f32 v" and fe: "tensor_all is_fin e" and fd: "is_fin dt"
  shows "v' = v"
proof -
  from hv obtain rv where rv: "v = T2 n rv" "length rv = B" "\<forall>r\<in>set rv. length r = n"
    by (cases v) auto
  from he obtain re where re: "e = T2 n re" "length re = B" "\<forall>r\<in>set re. length r = n"
    by (cases e) auto
  from hm z obtain rm where rm: "update_mask = T2 n rm" "length rm = B"
    "\<forall>r\<in>set rm. length r = n" "\<forall>r\<in>set rm. \<forall>a\<in>set r. a = 0"
    by (cases update_mask) (auto simp: list_all_iff)
  let ?rd = "map2 (map2 (*)) (map (map uminus) re) rm"
  have "d = T2 n ?rd"
    using d re rm bin_same_shape [of "map (map uminus) re" rm n "(*)"]
    by (simp add: tmul_def neg_def)
  then have sd: "smul dt d = T2 n (map (map ((*) dt)) ?rd)" by (simp add: smul_def)
  let ?rv' = "map2 (map2 (+)) rv (map (map ((*) dt)) ?rd)"
  have rd_len: "length (map (map ((*) dt)) ?rd) = B" using re rm by simp
  have rd_rows: "\<forall>r\<in>set (map (map ((*) dt)) ?rd). length r = n"
  proof
    fix r assume "r \<in> set (map (map ((*) dt)) ?rd)"
    then obtain p q where pq: "(p, q) \<in> set (zip (map (map uminus) re) rm)"
      "r = map ((*) dt) (map2 (*) p q)" by auto
    then have "p \<in> set (map (map uminus) re)" "q \<in> set rm"
      by (auto dest: set_zip_leftD set_zip_rightD)
    with re(3) rm(3) pq(2) show "length r = n" by auto
  qed
  have v'_eq: "v' = T2 n ?rv'"
    using v' sd rv rd_len rd_rows bin_same_shape [of rv "map (map ((*) dt)) ?rd" n "(+)"]
    by (simp add: tadd_def)
  have "?rv' ! i = rv ! i" if i: "i < B" for i
  proof -
    from i rv re rm have ln: "length (rv ! i) = n" "length (re ! i) = n" "length (rm ! i) = n"
      by simp_all
    have row: "?rv' ! i = map2 (+) (rv ! i)
        (map ((*) dt) (map2 (*) (map uminus (re ! i)) (rm ! i)))"
      using i rv(2) re(2) rm(2) by simp
    have "map2 (+) (rv ! i) (map ((*) dt) (map2 (*) (map uminus (re ! i)) (rm ! i))) ! j
        = rv ! i ! j" if j: "j < n" for j
    proof -
      from i rm(2) have "rm ! i \<in> set rm" by simp
      moreover from j ln have "rm ! i ! j \<in> set (rm ! i)" by simp
      ultimately have m0: "rm ! i ! j = 0" using rm(4) by blast
      from fv rv(1,2) i j ln have "is_f32 (rv ! i ! j)" by (simp add: list_all_length)
      moreover from fe re(1,2) i j ln have "is_fin (re ! i ! j)" by (simp add: list_all_length)
      ultimately have "rv ! i ! j + dt * (- (re ! i ! j) * 0) = rv ! i ! j"
        using fd by (rule f32_exact_entry)
      with j ln m0 show ?thesis by simp
    qed
    with ln show ?thesis unfolding row by (simp add: list_eq_iff_nth_eq)
  qed
  moreover have "length ?rv' = B" using rv(2) rd_len by simp
  ultimately have "?rv' = rv" using rv(2) by (simp add: list_eq_iff_nth_eq)
  with rv(1) v'_eq show ?thesis by simp
qed

lemma tensor_all_frozen:
  assumes "frozen_or_nan x v" and "tensor_all is_f32 x"
  shows "tensor_all is_f32 v"
proof -
  have e: "is_f32 b" if "same_or_nan a b" "is_f32 a" for a b
    using that by (auto simp: same_or_nan_def)
  have l: "list_all is_f32 ys" if "list_all2 same_or_nan xs ys" "list_all is_f32 xs" for xs ys
    using that by (induction rule: list_all2_induct) (auto intro: e)
  have "list_all (list_all is_f32) rs'"
    if "list_all2 (list_all2 same_or_nan) rs rs'" "list_all (list_all is_f32) rs" for rs rs'
    using that by (induction rule: list_all2_induct) (auto intro: l)
  with assms e l show ?thesis by (cases x; cases v) auto
qed

subsection \<open>Evaluation at the concrete states\<close>

lemmas eval_defs = set_nodes_def set_nodes_body_def initialize_def py_set_def py_get_def
  py_set_last_def py_get_last_def update_err_nodes_def update_err_body_def top_pred_def
  predict_from_def get_node_def as_tensor_def linear_forward_def tsub_def tadd_def tmul_def
  bdim_def row_bc_def expand_def cols_def dot_def total_def ReLU_def neg_def smul_def sign_def
  update_val_nodes_def update_val_body_def relax_sensory_def update_grads_def grads_body_def
  set_grad_def attr_def train_pc_generative_def test_pc_generative_def upt_rec
  eval_nat_numeral Let_def

lemma ex_set_nodes: "set_nodes (initialize ex_model) ex_inp = Inr ex_nodes_set"
  by (simp add: ex_model_def ex_inp_def ex_nodes_set_def eval_defs)

lemma ex_update_val_nodes: "update_val_nodes ex_nodes_set ex_mask True = Inr ex_relaxed"
  by (simp add: ex_model_def ex_mask_def ex_nodes_set_def ex_relaxed_def eval_defs)

lemma ex_update_grads: "update_grads ex_biased = Inr ex_biased_graded"
  by (simp add: ex_biased_def ex_biased_graded_def eval_defs)

lemma ex_hybrid_update_grads: "update_grads ex_hybrid = Inr ex_hybrid_graded"
  by (simp add: ex_hybrid_def ex_hybrid_graded_def eval_defs)



lemma ex_train_0: "train_pc_generative ex_model ex_inp 0 ex_mask = Inl RuntimeError"
  by (simp add: ex_model_def ex_inp_def eval_defs)

lemma ex_test_1: "test_pc_generative ex_model ex_inp 1 ex_mask False = Inr (preds ex_relaxed ! 1, ex_relaxed)"
  by (simp add: ex_model_def ex_inp_def ex_mask_def ex_relaxed_def eval_defs)

lemma ex_valid: "valid_model [1, 2] ex_model"
  by (simp add: ex_model_def valid_model_def valid_layer_def upt_rec)

lemma ex_zero_valid: "valid_model [1, 2] ex_zero \<and> zero_model ex_zero"
  by (simp add: ex_zero_def ex_model_def valid_model_def valid_layer_def zero_model_def upt_rec)

lemma ex_inp_shape: "rect ex_inp \<and> shape ex_inp = [3, [1, 2] ! (length [1, 2 :: nat] - 1)]"
  by (simp add: ex_inp_def)

subsection \<open>The frozen sensory layer in binary32\<close>

lemma relax_Suc:
  "relax update_mask recon (Suc n) m
     = and_then (relax update_mask recon n m) (\<lambda>s. update_val_nodes s update_mask recon)"
proof -
  let ?body = "\<lambda>s (itr :: nat). update_val_nodes s update_mask recon"
  have "for_each ?body [n] = (\<lambda>s. ?body s n)"
  proof (rule ext)
    fix s show "for_each ?body [n] s = ?body s n" by (cases "?body s n") simp_all
  qed
  then show ?thesis by (simp add: relax_def for_each_append)
qed

lemma relax_frozen:
  assumes vm: "valid_model ns (m :: f32 pcn)" and bufs: "bufs_ok ns B 0 False m"
    and po: "preds_ok m"
    and mask: "has_shape B (ns ! (length ns - 1)) True update_mask" "all_zero update_mask"
    and x: "val_nodes m ! (length ns - 1) = Some x" "tensor_all is_f32 x"
  shows "\<exists>m' v. relax update_mask True n m = Inr m' \<and> same_params m m'
           \<and> bufs_ok ns B n False m' \<and> val_nodes m' ! (length ns - 1) = Some v
           \<and> frozen_or_nan x v
           \<and> (is_fin (Dt m) \<and> sensory_errs_finite update_mask n m \<longrightarrow> v = x)"
proof (induction n)
  case 0
  show ?case using bufs x(1) by (simp add: relax_def)
next
  case (Suc n)
  then obtain s v where s: "relax update_mask True n m = Inr s" "same_params m s"
    "bufs_ok ns B n False s" "val_nodes s ! (length ns - 1) = Some v" "frozen_or_nan x v"
    "is_fin (Dt m) \<and> sensory_errs_finite update_mask n m \<longrightarrow> v = x"
    by blast
  let ?l = "length ns - 1"
  have vs: "valid_model ns s" using s(2) vm by (rule same_params_valid)
  then have "2 \<le> length ns" and nl: "n_layers s = length ns"
    by (simp_all add: valid_model_def)
  then have L: "0 < length ns" "?l < length ns" by linarith+
  note b = bufs_okD [OF s(3)]
  from update_val_nodes_ok [of ns s False B n True update_mask, OF vs _ s(3)] mask(1)
  obtain s' where s': "update_val_nodes s update_mask True = Inr s'" "same_params s s'"
    "bufs_ok ns B (Suc n) False s'" by auto
  from update_val_nodes_sensory [OF s'(1)] b(1,3) nl s(4)
  obtain e d v' where c: "errs s ! ?l = Some e" "tmul (neg e) update_mask = Inr d"
    "tadd v (smul (Dt s) d) = Inr v'" "val_nodes s' ! ?l = Some v'" by auto
  from b(4) L s(4) node_okD [of ns B n False "val_nodes s" ?l] batched_last [OF L(1), of n]
  have hv: "has_shape B (ns ! ?l) True v" by auto
  from b(5) L c(1) node_okD [of ns B n False "errs s" ?l] batched_last [OF L(1), of n]
  have he: "has_shape B (ns ! ?l) True e" by auto
  from frozen_step [OF hv he mask c(2,3) x(2) s(5)] have "frozen_or_nan x v'" .
  moreover have "v' = x" if h: "is_fin (Dt m)" "sensory_errs_finite update_mask (Suc n) m"
  proof -
    from h(2) have "sensory_errs_finite update_mask n m"
      and "case relax update_mask True n m of
             Inl err \<Rightarrow> False
           | Inr s \<Rightarrow> (case errs s ! (n_layers s - 1) of
                        None \<Rightarrow> False
                      | Some e \<Rightarrow> tensor_all is_fin e)"
      by (simp_all add: sensory_errs_finite_def)
    with h(1) s(1,6) nl c(1) have vx: "v = x" and fe: "tensor_all is_fin e" by simp_all
    from h(1) same_params_fields(5) [OF s(2)] have fd: "is_fin (Dt s)" by simp
    from vx x(2) have fv: "tensor_all is_f32 v" by simp
    from frozen_step_exact [OF hv he mask c(2,3) fv fe fd] vx show ?thesis by simp
  qed
  moreover have "relax update_mask True (Suc n) m = Inr s'"
    using s(1) s'(1) by (simp add: relax_Suc)
  moreover have "same_params m s'" using s(2) s'(2) by (rule same_params_trans)
  ultimately show ?case using s'(3) c(4) by blast
qed

lemmas f32_defs = plus_f32_def minus_f32_def times_f32_def uminus_f32_def sgn_f32_def
  zero_f32_def one_f32_def less_f32_def less_eq_f32_def max_def

lemma round32_overflow: "2 ^ 128 - 2 ^ 103 \<le> x \<Longrightarrow> round32 x = PInf"
  by (simp add: round32_def)

lemma ex32_test_1:
  "test_pc_generative ex32_model ex32_inp 1 ex32_mask True
     = Inr (Some (T2 1 [ [NaN], [NaN] ]), ex32_relaxed)"
  by (simp add: ex32_model_def ex32_inp_def ex32_mask_def ex32_relaxed_def eval_defs f32_defs
      round32_overflow)

lemma ex32_valid: "valid_model [1, 1] ex32_model" "valid_model [1, 1] ex32_tame"
  by (simp_all add: ex32_model_def ex32_tame_def valid_model_def valid_layer_def upt_rec)

lemma ex32_inp_ok:
  "rect ex32_inp" "shape ex32_inp = [2, [1, 1] ! (length [1, 1 :: nat] - 1)]"
  "tensor_all is_f32 ex32_inp" "rect ex32_mask"
  "shape ex32_mask = [2, [1, 1] ! (length [1, 1 :: nat] - 1)]" "all_zero ex32_mask"
  by (simp_all add: ex32_inp_def ex32_mask_def round32_1 zero_f32_def)

lemma ex32_params_ok:
  "tensor_all is_f32 (memory ex32_model)" "tensor_all is_f32 (weight (layers ex32_model ! 0))"
  "is_f32 (Dt ex32_model)" "is_f32 (lamb ex32_model)"
  using round32_pow2 [of 64] by (simp_all add: ex32_model_def round32_1)

lemma round32_m1: "round32 (- 1) = Fin (- 1)"
  by (simp add: round32_def round_even_def ulp_def power_int_minus)

lemma ex32_tame_run:
  "set_nodes (initialize ex32_tame) ex32_inp = Inr ex32_tame_set"
  "is_fin (Dt ex32_tame)" "sensory_errs_finite ex32_mask (nat 2) ex32_tame_set"
  by (simp_all add: sensory_errs_finite_def relax_def ex32_tame_set_def ex32_tame_def
      ex32_model_def ex32_inp_def ex32_mask_def eval_defs f32_defs round32_1 round32_m1)

lemma ex32_shapes:
  "shape ex32_inp = [2, 1]" "shape ex32_mask = [2, 1]" "T2 1 [ [NaN], [NaN] ] \<noteq> ex32_inp"
  by (simp_all add: ex32_inp_def ex32_mask_def)

section \<open>The claims\<close>

text \<open>
  C1 (as amended). For a valid model with node dimensions \<open>ns\<close> and an input batch of
  shape \<open>(B, ns[L-1])\<close>, \<open>set_nodes\<close> after \<open>initialize\<close> returns; \<open>val_nodes[0]\<close> is the
  memory vector itself, of shape \<open>(ns[0],)\<close>; every \<open>val_nodes[l]\<close> above the sensory
  layer has the one-dimensional shape \<open>(ns[l],)\<close> and only \<open>val_nodes[L-1]\<close> has the
  shape \<open>(B, ns[L-1])\<close>; every \<open>errs[l]\<close> has the shape of \<open>val_nodes[l]\<close>.
\<close>

theorem set_nodes_shapes:
  assumes "valid_model ns m" and "rect batch_inp"
    and "shape batch_inp = [B, ns ! (length ns - 1)]"
  shows "\<exists>m'. set_nodes (initialize m) batch_inp = Inr m'
           \<and> val_nodes m' ! 0 = Some (memory m)
           \<and> (\<forall>l<length ns. \<exists>v e. val_nodes m' ! l = Some v \<and> errs m' ! l = Some e
                 \<and> shape v = (if l = length ns - 1 then [B, ns ! l] else [ns ! l])
                 \<and> shape e = shape v)"
proof -
  from episode_start [of ns m False batch_inp B] assms
  obtain m1 where m1: "set_nodes (initialize m) batch_inp = Inr m1" "bufs_ok ns B 0 False m1"
    "val_nodes m1 ! 0 = Some (memory m)" by auto
  note b = bufs_okD [OF m1(2)]
  have "\<exists>v e. val_nodes m1 ! l = Some v \<and> errs m1 ! l = Some e
          \<and> shape v = (if l = length ns - 1 then [B, ns ! l] else [ns ! l])
          \<and> shape e = shape v" if l: "l < length ns" for l
  proof -
    from b(4) l node_okD [of ns B 0 False "val_nodes m1" l] obtain v
      where v: "val_nodes m1 ! l = Some v" "has_shape B (ns ! l) (batched ns 0 l) v" by auto
    from b(5) l node_okD [of ns B 0 False "errs m1" l] obtain e
      where e: "errs m1 ! l = Some e" "has_shape B (ns ! l) (batched ns 0 l) e" by auto
    from l have "batched ns 0 l \<longleftrightarrow> l = length ns - 1" by (auto simp: batched_def)
    with v e show ?thesis by (auto simp: has_shape_def)
  qed
  with m1(1,3) show ?thesis by blast
qed

theorem set_nodes_shapes_witness:
  "valid_model [1, 2] ex_model \<and> rect ex_inp
   \<and> shape ex_inp = [3, [1, 2] ! (length [1, 2 :: nat] - 1)]
   \<and> (\<exists>m'. set_nodes (initialize ex_model) ex_inp = Inr m'
           \<and> val_nodes m' ! 0 = Some (memory ex_model)
           \<and> (\<forall>l<length [1, 2 :: nat]. \<exists>v e. val_nodes m' ! l = Some v \<and> errs m' ! l = Some e
                 \<and> shape v = (if l = length [1, 2 :: nat] - 1 then [3, [1, 2] ! l] else [ [1, 2] ! l])
                 \<and> shape e = shape v))"
proof -
  have h: "valid_model [1, 2] ex_model" "rect ex_inp"
    "shape ex_inp = [3, [1, 2] ! (length [1, 2 :: nat] - 1)]"
    using ex_valid ex_inp_shape by simp_all
  from set_nodes_shapes [OF h] h show ?thesis by blast
qed

text \<open>
  C1 as stated fails: for node dimensions \<open>[1, 2]\<close> and a batch of three inputs,
  \<open>val_nodes[0]\<close> after \<open>set_nodes\<close> has shape \<open>(1,)\<close>, not \<open>(3, 1)\<close>.
\<close>

theorem set_nodes_memory_not_broadcast:
  "set_nodes (initialize ex_model) ex_inp = Inr ex_nodes_set
   \<and> map_option shape (val_nodes ex_nodes_set ! 0) = Some [1]
   \<and> map_option shape (val_nodes ex_nodes_set ! 0) \<noteq> Some [3, [1, 2] ! 0]"
  using ex_set_nodes by (simp add: ex_nodes_set_def)

text \<open>
  C2. A call of \<open>update_val_nodes\<close> that returns, on buffers as \<open>initialize\<close> sizes
  them, leaves in every non-sensory layer \<open>l\<close> the old value node plus \<open>Dt * delta\<close>,
  where \<open>delta\<close> is computed from the state before the call as the specification says,
  with penalty \<open>lamb\<close> at layer 0 and 0 elsewhere.
\<close>

theorem update_val_nodes_delta:
  assumes uv: "update_val_nodes m update_mask recon = Inr m'"
    and len: "length (val_nodes m) = n_layers m" and l: "Suc l < n_layers m"
  shows "\<exists>f v e e1 delta v'. nonlins m ! l = Callable f
           \<and> val_nodes m ! l = Some v \<and> errs m ! l = Some e \<and> errs m ! Suc l = Some e1
           \<and> spec_delta (if l = 0 then lamb m else 0) f v e e1 (weight (layers m ! l)) = Inr delta
           \<and> tadd v (smul (Dt m) delta) = Inr v' \<and> val_nodes m' ! l = Some v'"
proof -
  from uv obtain m1 m2 where s: "for_each update_val_body [0..<n_layers m - 1] m = Inr m1"
    "(if recon then relax_sensory m1 update_mask else Inr m1) = Inr m2"
    "update_err_nodes m2 = Inr m'"
    unfolding update_val_nodes_def and_then_eq_Inr by blast
  from update_val_loop_char [OF s(1)] obtain vs
    where vs: "m1 = m\<lparr>val_nodes := vs\<rparr>" "length vs = length (val_nodes m)"
      "\<forall>l<n_layers m - 1. \<exists>f v e e1 delta v'. nonlins m ! l = Callable f
                 \<and> val_nodes m ! l = Some v \<and> errs m ! l = Some e \<and> errs m ! Suc l = Some e1
                 \<and> spec_delta (if l = 0 then lamb m else 0) f v e e1 (weight (layers m ! l))
                     = Inr delta
                 \<and> tadd v (smul (Dt m) delta) = Inr v' \<and> vs ! l = Some v'" by blast
  have "val_nodes m2 ! l = vs ! l"
  proof (cases recon)
    case False
    with s(2) have "m2 = m1" by simp
    with vs(1) show ?thesis by simp
  next
    case True
    with s(2) relax_sensory_char [of m1 update_mask m2] obtain x
      where "m2 = m1\<lparr>val_nodes := (val_nodes m1)[length (val_nodes m1) - 1 := x]\<rparr>" by auto
    with vs(1,2) len l show ?thesis by simp
  qed
  moreover have "val_nodes m' = val_nodes m2" using s(3) by (rule update_err_nodes_val_nodes)
  moreover from l have "l < n_layers m - 1" by simp
  ultimately show ?thesis using vs(3) by simp
qed

theorem update_val_nodes_delta_witness:
  "update_val_nodes ex_nodes_set ex_mask True = Inr ex_relaxed
   \<and> length (val_nodes ex_nodes_set) = n_layers ex_nodes_set \<and> Suc 0 < n_layers ex_nodes_set
   \<and> (\<exists>f v e e1 delta v'. nonlins ex_nodes_set ! 0 = Callable f
           \<and> val_nodes ex_nodes_set ! 0 = Some v \<and> errs ex_nodes_set ! 0 = Some e
           \<and> errs ex_nodes_set ! Suc 0 = Some e1
           \<and> spec_delta (if (0::nat) = 0 then lamb ex_nodes_set else 0) f v e e1
                (weight (layers ex_nodes_set ! 0)) = Inr delta
           \<and> tadd v (smul (Dt ex_nodes_set) delta) = Inr v' \<and> val_nodes ex_relaxed ! 0 = Some v')"
proof -
  have h: "length (val_nodes ex_nodes_set) = n_layers ex_nodes_set" "Suc 0 < n_layers ex_nodes_set"
    by (simp_all add: ex_nodes_set_def ex_model_def)
  from update_val_nodes_delta [OF ex_update_val_nodes h] ex_update_val_nodes h
  show ?thesis by blast
qed

text \<open>
  C3. For the hierarchical class, a call of \<open>update_grads\<close> that returns has set the
  memory gradient to minus the sum over axis 0 of \<open>errs[0]\<close>, every layer's weight
  gradient to \<open>-(errs[l+1].t() @ nonlin(val_nodes[l]))\<close> and, with bias enabled, every
  layer's bias gradient to minus the sum over axis 0 of \<open>errs[l+1]\<close>.
\<close>

theorem hierarchical_update_grads:
  assumes ug: "update_grads m = Inr m'" and c: "cls m = HierarchicalPCN"
  shows "(\<exists>e0. errs m ! 0 = Some e0 \<and> memory_grad m' = Some (neg (sum0 e0)))
       \<and> (\<forall>l. Suc l < n_layers m \<longrightarrow>
            (\<exists>f v e1 g. nonlins m ! l = Callable f \<and> val_nodes m ! l = Some v
                 \<and> errs m ! Suc l = Some e1
                 \<and> matmul (tensor_t e1) (tmap (apply_fn f) v) = Inr g
                 \<and> weight_grad (layers m' ! l) = Some (neg g)
                 \<and> (use_bias m \<longrightarrow> bias_grad (layers m' ! l) = Some (neg (sum0 e1)))))"
proof -
  from ug c obtain e0 mg where h: "get_node (errs m) 0 = Inr e0"
    "set_grad (memory m) (neg (sum0 e0)) = Inr mg"
    "for_each grads_body [0..<n_layers m - 1] (m\<lparr>memory_grad := mg\<rparr>) = Inr m'"
    unfolding update_grads_def by (auto simp: and_then_eq_Inr)
  from h(2) have mg: "mg = Some (neg (sum0 e0))" by (simp add: set_grad_def split: if_splits)
  from h(1) have e0: "errs m ! 0 = Some e0" by (simp add: get_node_eq_Inr)
  from grads_loop_char [OF h(3)] obtain ls where ls: "m' = m\<lparr>memory_grad := mg, layers := ls\<rparr>"
    "\<forall>l<n_layers m - 1. \<exists>f v e1 g. nonlins m ! l = Callable f \<and> val_nodes m ! l = Some v
                 \<and> errs m ! Suc l = Some e1
                 \<and> matmul (tensor_t e1) (tmap (apply_fn f) v) = Inr g
                 \<and> weight_grad (ls ! l) = Some (neg g)
                 \<and> (use_bias m \<longrightarrow> bias_grad (ls ! l) = Some (neg (sum0 e1)))"
    by auto
  have "Suc l < n_layers m \<Longrightarrow> l < n_layers m - 1" for l by simp
  with ls e0 mg show ?thesis by simp
qed

theorem hierarchical_update_grads_witness:
  "update_grads ex_biased = Inr ex_biased_graded \<and> cls ex_biased = HierarchicalPCN
   \<and> Suc 0 < n_layers ex_biased \<and> use_bias ex_biased
   \<and> (\<exists>e0. errs ex_biased ! 0 = Some e0
          \<and> memory_grad ex_biased_graded = Some (neg (sum0 e0)))
   \<and> (\<exists>f v e1 g. nonlins ex_biased ! 0 = Callable f \<and> val_nodes ex_biased ! 0 = Some v
          \<and> errs ex_biased ! Suc 0 = Some e1
          \<and> matmul (tensor_t e1) (tmap (apply_fn f) v) = Inr g
          \<and> weight_grad (layers ex_biased_graded ! 0) = Some (neg g)
          \<and> bias_grad (layers ex_biased_graded ! 0) = Some (neg (sum0 e1)))"
proof -
  have h: "cls ex_biased = HierarchicalPCN" "Suc 0 < n_layers ex_biased" "use_bias ex_biased"
    by (simp_all add: ex_biased_def)
  from hierarchical_update_grads [OF ex_update_grads h(1)] ex_update_grads h
  show ?thesis by blast
qed

text \<open>
  C4. For the hybrid class, a call of \<open>update_grads\<close> that returns has stored a gradient
  of \<open>Wr\<close> that has the shape of \<open>Wr\<close> and whose diagonal entries are all zero, whatever
  the buffers and the parameters hold. The entries are real numbers.
\<close>

theorem hybrid_Wr_grad_zero_diagonal:
  assumes ug: "update_grads (m :: real pcn) = Inr m'" and c: "cls m = HybridPCN"
  shows "\<exists>wr g. Wr m = Some wr \<and> Wr_grad m' = Some g \<and> shape g = shape wr
           \<and> list_all (\<lambda>x. x = 0) (diagonal g)"
proof -
  from ug c obtain e0 mg e0' v0 p d wr wg
    where h: "matmul (tensor_t e0') v0 = Inr p" "fill_diagonal_0 p = Inr d"
      "attr (Wr m) = Inr wr" "set_grad wr (neg d) = Inr wg"
      "for_each grads_body [0..<n_layers m - 1] (m\<lparr>memory_grad := mg, Wr_grad := wg\<rparr>) = Inr m'"
    unfolding update_grads_def by (auto simp: and_then_eq_Inr)
  from h(4) have wg: "wg = Some (neg d)" "shape (neg d) = shape wr"
    by (simp_all add: set_grad_def split: if_splits)
  from h(3) have wr: "Wr m = Some wr" by (simp add: attr_def split: option.splits)
  from grads_loop_char [OF h(5)] obtain ls
    where "m' = m\<lparr>memory_grad := mg, Wr_grad := wg, layers := ls\<rparr>" by auto
  then have "Wr_grad m' = Some (neg d)" using wg by simp
  moreover from diagonal_fill_zero [OF h(2) matmul_rect [OF h(1)] ]
  have "list_all (\<lambda>x. x = 0) (diagonal (neg d))" .
  ultimately show ?thesis using wr wg(2) by blast
qed

theorem hybrid_Wr_grad_zero_diagonal_witness:
  "update_grads ex_hybrid = Inr ex_hybrid_graded \<and> cls ex_hybrid = HybridPCN
   \<and> (\<exists>wr g. Wr ex_hybrid = Some wr \<and> Wr_grad ex_hybrid_graded = Some g \<and> shape g = shape wr
           \<and> list_all (\<lambda>x. x = 0) (diagonal g))"
proof -
  have h: "cls ex_hybrid = HybridPCN" by (simp add: ex_hybrid_def)
  from hybrid_Wr_grad_zero_diagonal [OF ex_hybrid_update_grads h] ex_hybrid_update_grads h
  show ?thesis by blast
qed



text \<open>
  C6 (as amended). For a valid model, a corrupted input batch and an \<open>update_mask\<close> of
  shape \<open>(B, ns[L-1])\<close> and any \<open>n_iters\<close>, \<open>test_pc_generative\<close> returns. With
  \<open>sensory=True\<close> the result is the tensor \<open>val_nodes[L-1]\<close> of the relaxed state, of
  shape \<open>(B, ns[L-1])\<close>. With \<open>sensory=False\<close> it is the tensor \<open>preds[L-1]\<close> of that
  state, the prediction of the sensory layer, which is
  \<open>layers[L-2](nonlin(val_nodes[L-2]))\<close> for the relaxed value nodes.
\<close>

theorem test_pc_generative_returns:
  assumes "valid_model ns m" and "rect corrupt_inp"
    and "shape corrupt_inp = [B, ns ! (length ns - 1)]"
    and "rect update_mask" and "shape update_mask = [B, ns ! (length ns - 1)]"
  shows "\<exists>m1 m' v p. set_nodes (initialize m) corrupt_inp = Inr m1
           \<and> relax update_mask True (nat n_iters) m1 = Inr m'
           \<and> val_nodes m' ! (length ns - 1) = Some v \<and> rect v
           \<and> shape v = [B, ns ! (length ns - 1)]
           \<and> preds m' ! (length ns - 1) = Some p
           \<and> predict_from m' (length ns - 2) = Inr p
           \<and> test_pc_generative m corrupt_inp n_iters update_mask sensory
               = Inr (if sensory then Some v else Some p, m')"
proof -
  from test_relaxed [OF assms, of "nat n_iters"]
  obtain m1 m' v p where r: "set_nodes (initialize m) corrupt_inp = Inr m1"
    "relax update_mask True (nat n_iters) m1 = Inr m'"
    "length (val_nodes m') = length ns" "length (preds m') = length ns"
    "val_nodes m' ! (length ns - 1) = Some v" "rect v"
    "shape v = [B, ns ! (length ns - 1)]"
    "preds m' ! (length ns - 1) = Some p" "predict_from m' (length ns - 2) = Inr p"
    by blast
  from assms(1) have "2 \<le> length ns" by (simp add: valid_model_def)
  with r(3,4) have ne: "val_nodes m' \<noteq> []" "preds m' \<noteq> []" by auto
  have "test_pc_generative m corrupt_inp n_iters update_mask sensory
               = Inr (if sensory then Some v else Some p, m')"
    using r(1-5,8) ne by (simp add: test_pc_generative_def relax_def py_get_last_def)
  with r show ?thesis by blast
qed

theorem test_pc_generative_returns_witness:
  "valid_model [1, 2] ex_model \<and> rect ex_inp
   \<and> shape ex_inp = [3, [1, 2] ! (length [1, 2 :: nat] - 1)]
   \<and> rect ex_ones \<and> shape ex_ones = [3, [1, 2] ! (length [1, 2 :: nat] - 1)]
   \<and> (\<exists>m1 m' v p. set_nodes (initialize ex_model) ex_inp = Inr m1
           \<and> relax ex_ones True (nat 2) m1 = Inr m'
           \<and> val_nodes m' ! (length [1, 2 :: nat] - 1) = Some v \<and> rect v
           \<and> shape v = [3, [1, 2] ! (length [1, 2 :: nat] - 1)]
           \<and> preds m' ! (length [1, 2 :: nat] - 1) = Some p
           \<and> predict_from m' (length [1, 2 :: nat] - 2) = Inr p
           \<and> test_pc_generative ex_model ex_inp 2 ex_ones False
               = Inr (if False then Some v else Some p, m'))"
proof -
  have h: "valid_model [1, 2] ex_model" "rect ex_inp"
    "shape ex_inp = [3, [1, 2] ! (length [1, 2 :: nat] - 1)]"
    "rect ex_ones" "shape ex_ones = [3, [1, 2] ! (length [1, 2 :: nat] - 1)]"
    using ex_valid ex_inp_shape by (simp_all add: ex_ones_def)
  from test_pc_generative_returns [OF h, of 2 False] h show ?thesis by blast
qed

text \<open>
  C6 as stated fails for \<open>sensory=False\<close>: the value returned is the prediction of the
  sensory layer (index \<open>L-1\<close>), which differs from the prediction of the top layer
  (index 0).
\<close>

theorem test_pc_generative_not_top_prediction:
  "test_pc_generative ex_model ex_inp 1 ex_mask False = Inr (preds ex_relaxed ! 1, ex_relaxed)
   \<and> preds ex_relaxed ! 1 \<noteq> preds ex_relaxed ! 0"
  using ex_test_1 by (simp add: ex_relaxed_def)

text \<open>
  C9. For a valid model with zero layer weights, zero memory and no bias, and an
  all-zero input batch, \<open>set_nodes\<close> followed by any number \<open>n\<close> of relaxation steps
  (in training mode or, with a mask of the input's shape, in reconstruction mode)
  returns with \<open>errs[l]\<close> all zero at every layer. The entries are real numbers.
\<close>

theorem zero_model_zero_errors:
  assumes "valid_model ns (m :: real pcn)" and "zero_model m" and "rect batch_inp"
    and "shape batch_inp = [B, ns ! (length ns - 1)]" and "all_zero batch_inp"
    and "recon \<longrightarrow> rect update_mask \<and> shape update_mask = [B, ns ! (length ns - 1)]"
  shows "\<exists>m1 m'. set_nodes (initialize m) batch_inp = Inr m1
           \<and> relax update_mask recon n m1 = Inr m'
           \<and> (\<forall>l<length ns. \<exists>e. errs m' ! l = Some e \<and> all_zero e)"
proof -
  from episode_start [of ns m True batch_inp B] assms(1-5) exact_zero_real
  obtain m1 where m1: "set_nodes (initialize m) batch_inp = Inr m1" "valid_model ns m1"
    "zero_model m1" "bufs_ok ns B 0 True m1" "preds_ok m1" by auto
  have mk: "recon \<longrightarrow> has_shape B (ns ! (length ns - 1)) True update_mask"
    using assms(6) by (simp add: has_shape_def)
  from relax_ok [of ns m1 True B 0 recon update_mask n, OF m1(2) _ m1(4,5) mk] m1(3)
    exact_zero_real
  obtain m' where m': "relax update_mask recon n m1 = Inr m'" "bufs_ok ns B n True m'"
    by auto
  note b = bufs_okD [OF m'(2)]
  have "\<exists>e. errs m' ! l = Some e \<and> all_zero e" if "l < length ns" for l
    using b(5) that node_okD [of ns B n True "errs m'" l] by auto
  with m1(1) m'(1) show ?thesis by blast
qed

theorem zero_model_zero_errors_witness:
  "valid_model [1, 2] ex_zero \<and> zero_model ex_zero \<and> rect ex_zero_inp
   \<and> shape ex_zero_inp = [3, [1, 2] ! (length [1, 2 :: nat] - 1)] \<and> all_zero ex_zero_inp
   \<and> rect ex_ones \<and> shape ex_ones = [3, [1, 2] ! (length [1, 2 :: nat] - 1)]
   \<and> (\<exists>m1 m'. set_nodes (initialize ex_zero) ex_zero_inp = Inr m1
           \<and> relax ex_ones True 3 m1 = Inr m'
           \<and> (\<forall>l<length [1, 2 :: nat]. \<exists>e. errs m' ! l = Some e \<and> all_zero e))"
proof -
  have h: "valid_model [1, 2] ex_zero" "zero_model ex_zero" "rect ex_zero_inp"
    "shape ex_zero_inp = [3, [1, 2] ! (length [1, 2 :: nat] - 1)]" "all_zero ex_zero_inp"
    "True \<longrightarrow> rect ex_ones \<and> shape ex_ones = [3, [1, 2] ! (length [1, 2 :: nat] - 1)]"
    using ex_zero_valid by (simp_all add: ex_zero_inp_def ex_ones_def)
  from zero_model_zero_errors [OF h, of 3] h show ?thesis by blast
qed

text \<open>
  C10. Two calls of \<open>train_pc_generative\<close> that differ in the \<open>update_mask\<close> argument
  only have the same outcome: the same exception, or the same object with the same
  value nodes, errors and gradients.
\<close>

theorem train_pc_generative_ignores_mask:
  "train_pc_generative m batch_inp n_iters mask1 = train_pc_generative m batch_inp n_iters mask2"
  by (simp add: train_pc_generative_def update_val_nodes_def)

text \<open>
  C7. The constructor accepts a nonlinearity name outside \<open>{Tanh, ReLU}\<close>: it returns
  an object that holds the string, and the first use of the object raises a
  \<open>TypeError\<close>.
\<close>

theorem unknown_nonlinearity_is_accepted:
  "\<exists>m. HierarchicalPCN_init [1, 2] (Name ''Sigmoid'') (1 / 2) 0 False
          (\<lambda>l. T2 1 [ [2], [3] ]) (\<lambda>l. T1 [0, 0]) (T1 [1]) = Inr m
       \<and> nonlins m = [PyStr ''Sigmoid'']
       \<and> set_nodes (initialize m) ex_inp = Inl TypeError"
  by (simp add: HierarchicalPCN_init_def MultilayerPCN_init_def select_nonlin_def ex_inp_def
      eval_defs)

text \<open>
  C8 (as amended). For a valid model in binary32, a corrupted input batch of binary32
  values and an all-zero \<open>update_mask\<close>, both of shape \<open>(B, ns[L-1])\<close>, and any
  \<open>n_iters\<close>: \<open>test_pc_generative\<close> with \<open>sensory=True\<close> returns a tensor of the input's
  shape, and each of its entries is the entry of the input or NaN. The tensor is the
  input itself when \<open>Dt\<close> is finite and the error of the sensory layer is finite before
  each relaxation step.
\<close>

theorem zero_mask_sensory_frozen_or_nan:
  assumes "valid_model ns (m :: f32 pcn)" and "rect corrupt_inp"
    and "shape corrupt_inp = [B, ns ! (length ns - 1)]" and "tensor_all is_f32 corrupt_inp"
    and "rect update_mask" and "shape update_mask = [B, ns ! (length ns - 1)]"
    and "all_zero update_mask"
  shows "\<exists>m1 v m'. set_nodes (initialize m) corrupt_inp = Inr m1
           \<and> test_pc_generative m corrupt_inp n_iters update_mask True = Inr (Some v, m')
           \<and> frozen_or_nan corrupt_inp v
           \<and> (is_fin (Dt m) \<and> sensory_errs_finite update_mask (nat n_iters) m1
                \<longrightarrow> v = corrupt_inp)"
proof -
  from episode_start [of ns m False corrupt_inp B, OF assms(1) _ assms(2,3)]
  obtain m1 where m1: "set_nodes (initialize m) corrupt_inp = Inr m1" "valid_model ns m1"
    "bufs_ok ns B 0 False m1" "preds_ok m1"
    "val_nodes m1 ! (length ns - 1) = Some corrupt_inp" "same_params m m1" by auto
  have mk: "has_shape B (ns ! (length ns - 1)) True update_mask"
    using assms(5,6) by (simp add: has_shape_def)
  from relax_frozen [OF m1(2,3,4) mk assms(7) m1(5) assms(4), of "nat n_iters"]
  obtain m' v where r: "relax update_mask True (nat n_iters) m1 = Inr m'"
    "bufs_ok ns B (nat n_iters) False m'" "val_nodes m' ! (length ns - 1) = Some v"
    "frozen_or_nan corrupt_inp v"
    "is_fin (Dt m1) \<and> sensory_errs_finite update_mask (nat n_iters) m1 \<longrightarrow> v = corrupt_inp"
    by blast
  from assms(1) have "2 \<le> length ns" by (simp add: valid_model_def)
  with bufs_okD(1) [OF r(2)] have "val_nodes m' \<noteq> []" "length (val_nodes m') = length ns"
    by auto
  with m1(1) r(1,3)
  have "test_pc_generative m corrupt_inp n_iters update_mask True = Inr (Some v, m')"
    by (simp add: test_pc_generative_def relax_def py_get_last_def)
  moreover from r(5) same_params_fields(5) [OF m1(6)]
  have "is_fin (Dt m) \<and> sensory_errs_finite update_mask (nat n_iters) m1 \<longrightarrow> v = corrupt_inp"
    by simp
  ultimately show ?thesis using m1(1) r(4) by blast
qed

theorem zero_mask_sensory_frozen_or_nan_witness:
  "valid_model [1, 1] ex32_tame \<and> rect ex32_inp
   \<and> shape ex32_inp = [2, [1, 1] ! (length [1, 1 :: nat] - 1)] \<and> tensor_all is_f32 ex32_inp
   \<and> rect ex32_mask \<and> shape ex32_mask = [2, [1, 1] ! (length [1, 1 :: nat] - 1)]
   \<and> all_zero ex32_mask
   \<and> set_nodes (initialize ex32_tame) ex32_inp = Inr ex32_tame_set
   \<and> is_fin (Dt ex32_tame) \<and> sensory_errs_finite ex32_mask (nat 2) ex32_tame_set
   \<and> (\<exists>m'. test_pc_generative ex32_tame ex32_inp 2 ex32_mask True = Inr (Some ex32_inp, m'))"
proof -
  from zero_mask_sensory_frozen_or_nan [OF ex32_valid(2) ex32_inp_ok, of 2]
  obtain m1 v m' where h: "set_nodes (initialize ex32_tame) ex32_inp = Inr m1"
    "test_pc_generative ex32_tame ex32_inp 2 ex32_mask True = Inr (Some v, m')"
    "is_fin (Dt ex32_tame) \<and> sensory_errs_finite ex32_mask (nat 2) m1 \<longrightarrow> v = ex32_inp"
    by blast
  from h(1) ex32_tame_run(1) have "m1 = ex32_tame_set" by simp
  with h(3) ex32_tame_run(2,3) have "v = ex32_inp" by simp
  with h(2) ex32_valid(2) ex32_inp_ok ex32_tame_run show ?thesis by simp
qed

text \<open>
  C8 as stated fails in binary32. The model below has finite binary32 parameters, the
  input holds binary32 values and the mask is all zero; the prediction of the sensory
  layer overflows to infinity, the error of the sensory layer is infinite, its product
  with the zero mask is NaN, and after one step every returned entry is NaN.
\<close>

theorem zero_mask_sensory_becomes_nan:
  "valid_model [1, 1] ex32_model
   \<and> tensor_all is_f32 (memory ex32_model) \<and> tensor_all is_f32 (weight (layers ex32_model ! 0))
   \<and> is_f32 (Dt ex32_model) \<and> is_f32 (lamb ex32_model)
   \<and> tensor_all is_f32 ex32_inp \<and> shape ex32_inp = [2, 1]
   \<and> all_zero ex32_mask \<and> shape ex32_mask = [2, 1]
   \<and> test_pc_generative ex32_model ex32_inp 1 ex32_mask True
       = Inr (Some (T2 1 [ [NaN], [NaN] ]), ex32_relaxed)
   \<and> T2 1 [ [NaN], [NaN] ] \<noteq> ex32_inp"
  using ex32_valid(1) ex32_test_1 ex32_inp_ok(3,6) ex32_params_ok ex32_shapes by simp

end
